theory Spec2Isabelle
  imports Main "HOL-Library.AList"
begin

section \<open>The classifieds board: models, signal handlers and views\<close>

text \<open>
  The development embeds \<^verbatim>\<open>board/models.py\<close>, \<^verbatim>\<open>board/signals.py\<close> and
  \<^verbatim>\<open>board/views.py\<close>. The relational tables are association lists from primary key to
  row; an uncaught Python exception is a value of type \<open>error\<close>; every view maps a request
  and a database to an outcome and the database it leaves behind.
\<close>

subsection \<open>Rows (models.py)\<close>

type_synonym user = nat

record advertisement =
  title :: string
  content :: string
  author :: user
  created_at :: nat
  image :: "string option"
  likes :: int
  dislikes :: int

text \<open>
  Modelled from the spec: the fields \<open>likes\<close> and \<open>dislikes\<close> are read and written by
  the views and the handlers but are not declared in \<^verbatim>\<open>models.py\<close>; they are the
  integer counters of section 3 of the specification, and a new advertisement starts with
  both at zero.
\<close>

record comment =
  comment_advertisement :: nat
  comment_author :: user
  comment_content :: string
  comment_created_at :: nat

text \<open>
  Modelled from the spec: the class \<open>UserProfile\<close> is imported from \<^verbatim>\<open>models.py\<close> but
  not declared there. It is the one-to-one companion of a user holding three counters; the
  table below is keyed by the user, which is what one-to-one means, and a row made by
  \<open>create\<close> or \<open>get_or_create\<close> starts with every counter at zero.
\<close>

record user_profile =
  advertisements_count :: int
  total_likes :: int
  total_dislikes :: int

definition new_profile :: user_profile where
  "new_profile = \<lparr>advertisements_count = 0, total_likes = 0, total_dislikes = 0\<rparr>"

record db =
  users :: "user list"
  advertisements :: "(nat \<times> advertisement) list"
  comments :: "(nat \<times> comment) list"
  profiles :: "(user \<times> user_profile) list"

definition empty_db :: db where
  "empty_db = \<lparr>users = [], advertisements = [], comments = [], profiles = []\<rparr>"

datatype error =
  Http404 | DoesNotExist | IntegrityError | ValueError | PageNotAnInteger | EmptyPage

text \<open>The key the database gives to an inserted row: one that no row of the table has.\<close>

definition next_pk :: "nat list \<Rightarrow> nat" where
  "next_pk ks = Suc (fold max ks 0)"

subsection \<open>The object manager of UserProfile\<close>

definition UserProfile_get :: "user \<Rightarrow> db \<Rightarrow> error + user_profile" where
  "UserProfile_get u s =
     (case map_of (profiles s) u of None \<Rightarrow> Inl DoesNotExist | Some p \<Rightarrow> Inr p)"

definition UserProfile_save :: "user \<Rightarrow> user_profile \<Rightarrow> db \<Rightarrow> db" where
  "UserProfile_save u p s = s\<lparr>profiles := AList.update u p (profiles s)\<rparr>"

definition UserProfile_get_or_create :: "user \<Rightarrow> db \<Rightarrow> user_profile \<times> db" where
  "UserProfile_get_or_create u s =
     (case map_of (profiles s) u of
        Some p \<Rightarrow> (p, s)
      | None \<Rightarrow> (new_profile, UserProfile_save u new_profile s))"

definition UserProfile_create :: "user \<Rightarrow> db \<Rightarrow> error + db" where
  "UserProfile_create u s =
     (case map_of (profiles s) u of
        Some p \<Rightarrow> Inl IntegrityError
      | None \<Rightarrow> Inr (UserProfile_save u new_profile s))"

subsection \<open>Signal handlers (signals.py)\<close>

text \<open>
  A handler either raises before it writes anything or returns the database it has written.
\<close>

definition update_user_statistics_on_create ::
  "advertisement \<Rightarrow> bool \<Rightarrow> db \<Rightarrow> error + db" where
  "update_user_statistics_on_create instance created s =
     (if created then
        (case UserProfile_get_or_create (author instance) s of
           (profile, s1) \<Rightarrow>
             Inr (UserProfile_save (author instance)
                    (profile\<lparr>advertisements_count := advertisements_count profile + 1\<rparr>) s1))
      else Inr s)"

definition update_user_statistics_on_delete :: "advertisement \<Rightarrow> db \<Rightarrow> error + db" where
  "update_user_statistics_on_delete instance s =
     (case UserProfile_get (author instance) s of
        Inl e \<Rightarrow> Inl e
      | Inr profile \<Rightarrow>
          Inr (UserProfile_save (author instance)
                 (profile\<lparr>advertisements_count := advertisements_count profile - 1\<rparr>) s))"

definition update_user_statistics_on_like :: "advertisement \<Rightarrow> db \<Rightarrow> error + db" where
  "update_user_statistics_on_like instance s =
     (if likes instance > 0 then
        (case UserProfile_get (author instance) s of
           Inl e \<Rightarrow> Inl e
         | Inr profile \<Rightarrow>
             Inr (UserProfile_save (author instance)
                    (profile\<lparr>total_likes := total_likes profile + 1\<rparr>) s))
      else Inr s)"

definition update_user_statistics_on_dislike :: "advertisement \<Rightarrow> db \<Rightarrow> error + db" where
  "update_user_statistics_on_dislike instance s =
     (if dislikes instance > 0 then
        (case UserProfile_get (author instance) s of
           Inl e \<Rightarrow> Inl e
         | Inr profile \<Rightarrow>
             Inr (UserProfile_save (author instance)
                    (profile\<lparr>total_dislikes := total_dislikes profile + 1\<rparr>) s))
      else Inr s)"

text \<open>
  Sending a signal calls the receivers in the order of their registration; an exception of
  one receiver leaves the signal, so the receivers after it do not run.
\<close>

fun send :: "(db \<Rightarrow> error + db) list \<Rightarrow> db \<Rightarrow> error option \<times> db" where
  "send [] s = (None, s)"
| "send (h # hs) s = (case h s of Inl e \<Rightarrow> (Some e, s) | Inr s' \<Rightarrow> send hs s')"

definition post_save :: "advertisement \<Rightarrow> bool \<Rightarrow> (db \<Rightarrow> error + db) list" where
  "post_save instance created =
     [update_user_statistics_on_create instance created,
      update_user_statistics_on_like instance,
      update_user_statistics_on_dislike instance]"

definition post_delete :: "advertisement \<Rightarrow> (db \<Rightarrow> error + db) list" where
  "post_delete instance = [update_user_statistics_on_delete instance]"

subsection \<open>Saving and deleting an Advertisement\<close>

text \<open>
  \<open>save\<close> of an instance without a primary key inserts a row, \<open>save\<close> of an instance with
  one updates its row (or inserts it when no row has the key); \<open>post_save\<close> is sent
  after the row is written. Every statement is committed as it runs, which is the default
  when no transaction spans the request, so the row stays written when a receiver raises.
  The first component of the result is the primary key of the row.
\<close>

definition Advertisement_save ::
  "nat option \<Rightarrow> advertisement \<Rightarrow> db \<Rightarrow> nat \<times> error option \<times> db" where
  "Advertisement_save pk instance s =
     (case pk of
        None \<Rightarrow>
          (let k = next_pk (map fst (advertisements s));
               s1 = s\<lparr>advertisements := advertisements s @ [(k, instance)]\<rparr>
           in (k, send (post_save instance True) s1))
      | Some k \<Rightarrow>
          (let s1 = s\<lparr>advertisements := AList.update k instance (advertisements s)\<rparr>
           in (k, send (post_save instance False) s1)))"

text \<open>
  \<open>delete\<close> removes the comments of the advertisement (the cascade of
  \<open>Comment.advertisement\<close>) and the row itself, then sends \<open>post_delete\<close>; all of it is one
  transaction, so an exception of the receiver undoes the deletion.
\<close>

definition Advertisement_delete :: "nat \<Rightarrow> advertisement \<Rightarrow> db \<Rightarrow> error option \<times> db" where
  "Advertisement_delete pk instance s =
     (let s1 = s\<lparr>comments := filter (\<lambda>(c, row). comment_advertisement row \<noteq> pk) (comments s),
                 advertisements := AList.delete pk (advertisements s)\<rparr>
      in case send (post_delete instance) s1 of
           (Some e, s2) \<Rightarrow> (Some e, s)
         | (None, s2) \<Rightarrow> (None, s2))"

subsection \<open>Requests and responses\<close>

text \<open>
  Modelled from the spec: \<^verbatim>\<open>board/forms.py\<close> is not part of the source. A request carries
  what the forms would compute from it: \<open>ad_form\<close> is the cleaned data of
  \<open>AdvertisementForm\<close> when \<open>is_valid()\<close> holds and \<open>None\<close> otherwise, \<open>signup_valid\<close>
  is \<open>is_valid()\<close> of \<open>SignUpForm\<close>. \<open>user\<close> is \<open>request.user\<close>, \<open>None\<close> for the
  anonymous user; \<open>page\<close> is the integer value of the query parameter \<open>page\<close>, \<open>None\<close>
  when it is absent or not an integer; \<open>now\<close> is the clock read by \<open>auto_now_add\<close>.
\<close>

record advertisement_form =
  form_title :: string
  form_content :: string
  form_image :: "string option"

record request =
  "method" :: string
  user :: "user option"
  ad_form :: "advertisement_form option"
  signup_valid :: bool
  page :: "int option"
  now :: nat

record page_obj =
  object_list :: "advertisement list"
  number :: int

datatype template_context =
    No_context
  | Form_context
  | Page_context page_obj
  | Advertisement_context advertisement
  | Form_advertisement_context advertisement

datatype response = Redirect string "nat option" | Render string template_context

type_synonym outcome = "(error + response) \<times> db"

definition LOGIN_URL :: string where
  "LOGIN_URL = ''/accounts/login/''"

text \<open>The decorator: an anonymous request is redirected to the login page, the view is not run.\<close>

definition login_required :: "(request \<Rightarrow> db \<Rightarrow> outcome) \<Rightarrow> request \<Rightarrow> db \<Rightarrow> outcome" where
  "login_required view request s =
     (case user request of
        None \<Rightarrow> (Inr (Redirect LOGIN_URL None), s)
      | Some u \<Rightarrow> view request s)"

definition get_object_or_404 :: "nat \<Rightarrow> db \<Rightarrow> error + advertisement" where
  "get_object_or_404 pk s =
     (case map_of (advertisements s) pk of None \<Rightarrow> Inl Http404 | Some a \<Rightarrow> Inr a)"

definition Advertisement_get :: "nat \<Rightarrow> db \<Rightarrow> error + advertisement" where
  "Advertisement_get pk s =
     (case map_of (advertisements s) pk of None \<Rightarrow> Inl DoesNotExist | Some a \<Rightarrow> Inr a)"

subsection \<open>The paginator\<close>

text \<open>
  \<open>Paginator(object_list, per_page)\<close> with no orphans and an empty first page allowed,
  as the list view builds it. \<open>get_page\<close> replaces a page number that is not an integer
  by the first page and one out of range by the last page; \<open>page\<close> validates the number
  again and cuts the slice.
\<close>

record paginator =
  paginator_object_list :: "advertisement list"
  per_page :: int

definition count :: "paginator \<Rightarrow> int" where
  "count p = int (length (paginator_object_list p))"

definition num_pages :: "paginator \<Rightarrow> int" where
  "num_pages p = (let hits = max 1 (count p) in (hits + per_page p - 1) div per_page p)"

definition validate_number :: "paginator \<Rightarrow> int option \<Rightarrow> error + int" where
  "validate_number p n =
     (case n of
        None \<Rightarrow> Inl PageNotAnInteger
      | Some k \<Rightarrow>
          if k < 1 then Inl EmptyPage
          else if k > num_pages p then Inl EmptyPage
          else Inr k)"

text \<open>Python's \<open>xs[lo:hi]\<close> for indices that are not negative.\<close>

definition slice :: "'a list \<Rightarrow> int \<Rightarrow> int \<Rightarrow> 'a list" where
  "slice xs lo hi = take (nat (hi - lo)) (drop (nat lo) xs)"

definition page_of :: "paginator \<Rightarrow> int \<Rightarrow> error + page_obj" where
  "page_of p k0 =
     (case validate_number p (Some k0) of
        Inl e \<Rightarrow> Inl e
      | Inr k \<Rightarrow>
          (let bottom = (k - 1) * per_page p;
               top0 = bottom + per_page p;
               top1 = (if top0 \<ge> count p then count p else top0)
           in Inr \<lparr>object_list = slice (paginator_object_list p) bottom top1, number = k\<rparr>))"

definition get_page :: "paginator \<Rightarrow> int option \<Rightarrow> error + page_obj" where
  "get_page p n =
     (case validate_number p n of
        Inl PageNotAnInteger \<Rightarrow> page_of p 1
      | Inl EmptyPage \<Rightarrow> page_of p (num_pages p)
      | Inl e \<Rightarrow> Inl e
      | Inr k \<Rightarrow> page_of p k)"

subsection \<open>Views (views.py)\<close>

text \<open>
  \<open>login\<close> and \<open>logout\<close> change the session of the browser, which is none of the
  four tables; the user a session stands for reaches a view as \<open>user request\<close>.
  \<open>SignUpForm.save\<close> inserts a user under a fresh key.
\<close>

definition logout_view :: "request \<Rightarrow> db \<Rightarrow> outcome" where
  "logout_view request s = (Inr (Redirect ''home'' None), s)"

definition signup :: "request \<Rightarrow> db \<Rightarrow> outcome" where
  "signup request s =
     (if method request = ''POST'' then
        (if signup_valid request then
           (let u = next_pk (users s);
                s1 = s\<lparr>users := users s @ [u]\<rparr>
            in case UserProfile_create u s1 of
                 Inl e \<Rightarrow> (Inl e, s1)
               | Inr s2 \<Rightarrow> (Inr (Redirect ''/board'' None), s2))
         else (Inr (Render ''signup.html'' Form_context), s))
      else (Inr (Render ''signup.html'' Form_context), s))"

definition home :: "request \<Rightarrow> db \<Rightarrow> outcome" where
  "home request s = (Inr (Render ''home.html'' No_context), s)"

definition advertisement_list :: "request \<Rightarrow> db \<Rightarrow> outcome" where
  "advertisement_list request s =
     (let advertisements_all = map snd (advertisements s);
          paginator = \<lparr>paginator_object_list = advertisements_all, per_page = 5\<rparr>;
          page_number = page request
      in case get_page paginator page_number of
           Inl e \<Rightarrow> (Inl e, s)
         | Inr page_obj \<Rightarrow>
             (Inr (Render ''board/advertisement_list.html'' (Page_context page_obj)), s))"

definition advertisement_detail :: "request \<Rightarrow> nat \<Rightarrow> db \<Rightarrow> outcome" where
  "advertisement_detail request pk s =
     (case Advertisement_get pk s of
        Inl e \<Rightarrow> (Inl e, s)
      | Inr advertisement \<Rightarrow>
          (Inr (Render ''board/advertisement_detail.html''
                  (Advertisement_context advertisement)), s))"

definition add_advertisement_view :: "request \<Rightarrow> db \<Rightarrow> outcome" where
  "add_advertisement_view request s =
     (if method request = ''POST'' then
        (case ad_form request of
           Some form \<Rightarrow>
             (case user request of
                None \<Rightarrow> (Inl ValueError, s)
              | Some u \<Rightarrow>
                  (let advertisement =
                         \<lparr>title = form_title form, content = form_content form, author = u,
                          created_at = now request, image = form_image form,
                          likes = 0, dislikes = 0\<rparr>
                   in case Advertisement_save None advertisement s of
                        (k, Some e, s1) \<Rightarrow> (Inl e, s1)
                      | (k, None, s1) \<Rightarrow>
                          (Inr (Redirect ''board:advertisement_list'' None), s1)))
         | None \<Rightarrow> (Inr (Render ''board/add_advertisement.html'' Form_context), s))
      else (Inr (Render ''board/add_advertisement.html'' Form_context), s))"

definition add_advertisement :: "request \<Rightarrow> db \<Rightarrow> outcome" where
  "add_advertisement = login_required add_advertisement_view"

definition edit_advertisement_view :: "nat \<Rightarrow> request \<Rightarrow> db \<Rightarrow> outcome" where
  "edit_advertisement_view pk request s =
     (case get_object_or_404 pk s of
        Inl e \<Rightarrow> (Inl e, s)
      | Inr advertisement \<Rightarrow>
          if Some (author advertisement) \<noteq> user request then
            (Inr (Redirect ''board:advertisement_list'' None), s)
          else if method request = ''POST'' then
            (case ad_form request of
               Some form \<Rightarrow>
                 (let advertisement' =
                        advertisement\<lparr>title := form_title form, content := form_content form,
                                      image := form_image form\<rparr>
                  in case Advertisement_save (Some pk) advertisement' s of
                       (k, Some e, s1) \<Rightarrow> (Inl e, s1)
                     | (k, None, s1) \<Rightarrow>
                         (Inr (Redirect ''board:advertisement_detail'' (Some pk)), s1))
             | None \<Rightarrow>
                 (Inr (Render ''board/edit_advertisement.html''
                         (Form_advertisement_context advertisement)), s))
          else
            (Inr (Render ''board/edit_advertisement.html''
                    (Form_advertisement_context advertisement)), s))"

definition edit_advertisement :: "request \<Rightarrow> nat \<Rightarrow> db \<Rightarrow> outcome" where
  "edit_advertisement request pk = login_required (edit_advertisement_view pk) request"

definition delete_advertisement_view :: "nat \<Rightarrow> request \<Rightarrow> db \<Rightarrow> outcome" where
  "delete_advertisement_view pk request s =
     (case get_object_or_404 pk s of
        Inl e \<Rightarrow> (Inl e, s)
      | Inr advertisement \<Rightarrow>
          if Some (author advertisement) \<noteq> user request then
            (Inr (Redirect ''board:advertisement_list'' None), s)
          else if method request = ''POST'' then
            (case Advertisement_delete pk advertisement s of
               (Some e, s1) \<Rightarrow> (Inl e, s1)
             | (None, s1) \<Rightarrow> (Inr (Redirect ''board:advertisement_list'' None), s1))
          else
            (Inr (Render ''board/delete_advertisement_confirm.html''
                    (Advertisement_context advertisement)), s))"

definition delete_advertisement :: "request \<Rightarrow> nat \<Rightarrow> db \<Rightarrow> outcome" where
  "delete_advertisement request pk = login_required (delete_advertisement_view pk) request"

definition like_advertisement_view :: "nat \<Rightarrow> request \<Rightarrow> db \<Rightarrow> outcome" where
  "like_advertisement_view pk request s =
     (case get_object_or_404 pk s of
        Inl e \<Rightarrow> (Inl e, s)
      | Inr advertisement \<Rightarrow>
          (let advertisement' = advertisement\<lparr>likes := likes advertisement + 1\<rparr>
           in case Advertisement_save (Some pk) advertisement' s of
                (k, Some e, s1) \<Rightarrow> (Inl e, s1)
              | (k, None, s1) \<Rightarrow>
                  (case UserProfile_get (author advertisement') s1 of
                     Inl e \<Rightarrow> (Inl e, s1)
                   | Inr profile \<Rightarrow>
                       (Inr (Redirect ''board:advertisement_detail'' (Some pk)),
                        UserProfile_save (author advertisement')
                          (profile\<lparr>total_likes := total_likes profile + 1\<rparr>) s1))))"

definition like_advertisement :: "request \<Rightarrow> nat \<Rightarrow> db \<Rightarrow> outcome" where
  "like_advertisement request pk = login_required (like_advertisement_view pk) request"

definition dislike_advertisement_view :: "nat \<Rightarrow> request \<Rightarrow> db \<Rightarrow> outcome" where
  "dislike_advertisement_view pk request s =
     (case get_object_or_404 pk s of
        Inl e \<Rightarrow> (Inl e, s)
      | Inr advertisement \<Rightarrow>
          (let advertisement' = advertisement\<lparr>dislikes := dislikes advertisement + 1\<rparr>
           in case Advertisement_save (Some pk) advertisement' s of
                (k, Some e, s1) \<Rightarrow> (Inl e, s1)
              | (k, None, s1) \<Rightarrow>
                  (case UserProfile_get (author advertisement') s1 of
                     Inl e \<Rightarrow> (Inl e, s1)
                   | Inr profile \<Rightarrow>
                       (Inr (Redirect ''board:advertisement_detail'' (Some pk)),
                        UserProfile_save (author advertisement')
                          (profile\<lparr>total_dislikes := total_dislikes profile + 1\<rparr>) s1))))"

definition dislike_advertisement :: "request \<Rightarrow> nat \<Rightarrow> db \<Rightarrow> outcome" where
  "dislike_advertisement request pk = login_required (dislike_advertisement_view pk) request"

subsection \<open>Creating a comment, deleting a user\<close>

text \<open>
  No view creates a comment or deletes a user; both happen through the object manager.
  \<open>Comment_create\<close> inserts a row whose two foreign keys must point to existing rows.
  \<open>User_delete\<close> follows the three \<open>on_delete=CASCADE\<close> declarations of
  \<^verbatim>\<open>models.py\<close>: it removes the comments written by the user, the advertisements of the
  user and the comments on those advertisements, sends \<open>post_delete\<close> for each removed
  advertisement, and removes the user; the whole deletion is one transaction, undone when a
  receiver raises. Rows of a table that has no receivers of its own are removed before any
  receiver runs: the comments and the profile row are gone when \<open>post_delete\<close> is
  sent for the advertisements.

  Modelled from the spec: the declaration of \<open>UserProfile.user\<close> is not in
  \<^verbatim>\<open>models.py\<close>; the profile is the one-to-one companion of its user and is removed
  with it.
\<close>

definition Comment_create :: "comment \<Rightarrow> db \<Rightarrow> error option \<times> db" where
  "Comment_create c s =
     (if comment_advertisement c \<in> set (map fst (advertisements s)) \<and>
         comment_author c \<in> set (users s)
      then (None, s\<lparr>comments := comments s @ [(next_pk (map fst (comments s)), c)]\<rparr>)
      else (Some IntegrityError, s))"

definition User_delete :: "user \<Rightarrow> db \<Rightarrow> error option \<times> db" where
  "User_delete u s =
     (let own = filter (\<lambda>(k, a). author a = u) (advertisements s);
          s1 = s\<lparr>comments :=
                   filter (\<lambda>(c, row). comment_author row \<noteq> u \<and>
                             comment_advertisement row \<notin> set (map fst own)) (comments s),
                 profiles := AList.delete u (profiles s),
                 advertisements := filter (\<lambda>(k, a). author a \<noteq> u) (advertisements s)\<rparr>
      in case send (concat (map (\<lambda>(k, a). post_delete a) own)) s1 of
           (Some e, s2) \<Rightarrow> (Some e, s)
         | (None, s2) \<Rightarrow>
             (None, s2\<lparr>users := removeAll u (users s2)\<rparr>))"

subsection \<open>Reachable databases\<close>

text \<open>
  Modelled from the spec: \<^verbatim>\<open>board/urls.py\<close> is not in the source; the routes are the
  endpoints listed in section 6 of the specification, one per view.
\<close>

datatype view =
    Logout
  | Signup
  | Home
  | Advertisement_list
  | Advertisement_detail nat
  | Add_advertisement
  | Edit_advertisement nat
  | Delete_advertisement nat
  | Like_advertisement nat
  | Dislike_advertisement nat

fun dispatch :: "view \<Rightarrow> request \<Rightarrow> db \<Rightarrow> outcome" where
  "dispatch Logout request s = logout_view request s"
| "dispatch Signup request s = signup request s"
| "dispatch Home request s = home request s"
| "dispatch Advertisement_list request s = advertisement_list request s"
| "dispatch (Advertisement_detail pk) request s = advertisement_detail request pk s"
| "dispatch Add_advertisement request s = add_advertisement request s"
| "dispatch (Edit_advertisement pk) request s = edit_advertisement request pk s"
| "dispatch (Delete_advertisement pk) request s = delete_advertisement request pk s"
| "dispatch (Like_advertisement pk) request s = like_advertisement request pk s"
| "dispatch (Dislike_advertisement pk) request s = dislike_advertisement request pk s"

text \<open>The user of a request is anonymous or a row of the user table.\<close>

definition known_user :: "request \<Rightarrow> db \<Rightarrow> bool" where
  "known_user request s = (case user request of None \<Rightarrow> True | Some u \<Rightarrow> u \<in> set (users s))"

text \<open>
  A database is reachable when it comes from the empty one by requests to the views, by
  created comments and by deleted users; what an operation leaves behind counts also when
  it ends in an error.
\<close>

inductive reachable :: "db \<Rightarrow> bool" where
  reachable_empty: "reachable empty_db"
| reachable_request:
    "reachable s \<Longrightarrow> known_user request s \<Longrightarrow> reachable (snd (dispatch v request s))"
| reachable_comment: "reachable s \<Longrightarrow> reachable (snd (Comment_create c s))"
| reachable_user_delete: "reachable s \<Longrightarrow> reachable (snd (User_delete u s))"

subsection \<open>Invariants and abbreviations used in the statements\<close>

text \<open>Every advertisement has an author whose profile row exists.\<close>

definition authors_have_profiles :: "db \<Rightarrow> bool" where
  "authors_have_profiles s =
     list_all (\<lambda>(k, a). map_of (profiles s) (author a) \<noteq> None) (advertisements s)"

text \<open>
  Referential integrity: a comment points to a row of the advertisement table and to a row
  of the user table, an advertisement points to a row of the user table.
\<close>

definition references_live :: "db \<Rightarrow> bool" where
  "references_live s =
     (list_all (\<lambda>(c, row). comment_advertisement row \<in> set (map fst (advertisements s)) \<and>
                            comment_author row \<in> set (users s)) (comments s) \<and>
      list_all (\<lambda>(k, a). author a \<in> set (users s)) (advertisements s))"

text \<open>The advertisements of a user, and the statistics the profile is meant to cache.\<close>

definition advertisements_of :: "user \<Rightarrow> db \<Rightarrow> advertisement list" where
  "advertisements_of u s = map snd (filter (\<lambda>(k, a). author a = u) (advertisements s))"

definition statistics_of :: "user \<Rightarrow> db \<Rightarrow> user_profile" where
  "statistics_of u s =
     \<lparr>advertisements_count = int (length (advertisements_of u s)),
      total_likes = sum_list (map likes (advertisements_of u s)),
      total_dislikes = sum_list (map dislikes (advertisements_of u s))\<rparr>"

definition statistics_consistent :: "db \<Rightarrow> bool" where
  "statistics_consistent s =
     list_all (\<lambda>u. map_of (profiles s) u = Some (statistics_of u s)) (users s)"

text \<open>What the two counter handlers of \<open>post_save\<close> do to the profile of the author.\<close>

definition counted :: "advertisement \<Rightarrow> user_profile \<Rightarrow> user_profile" where
  "counted a p =
     p\<lparr>total_likes := total_likes p + (if likes a > 0 then 1 else 0),
       total_dislikes := total_dislikes p + (if dislikes a > 0 then 1 else 0)\<rparr>"

text \<open>
  A step that touches only the profile table and removes no profile row; the conjunction
  of the two invariants.
\<close>

definition only_profiles :: "db \<Rightarrow> db \<Rightarrow> bool" where
  "only_profiles s s' = (users s' = users s \<and> advertisements s' = advertisements s \<and>
      comments s' = comments s \<and> dom (map_of (profiles s)) \<subseteq> dom (map_of (profiles s')))"

definition db_invariant :: "db \<Rightarrow> bool" where
  "db_invariant s = (authors_have_profiles s \<and> references_live s)"

subsection \<open>Sample requests and databases\<close>

definition sample_form :: advertisement_form where
  "sample_form = \<lparr>form_title = ''Bicycle'', form_content = ''As new'', form_image = None\<rparr>"

definition sample_request :: "string \<Rightarrow> user option \<Rightarrow> request" where
  "sample_request m u =
     \<lparr>method = m, user = u, ad_form = Some sample_form, signup_valid = True,
      page = None, now = 0\<rparr>"

definition db_signed_up :: db where
  "db_signed_up = snd (signup (sample_request ''POST'' None) empty_db)"

definition db_one_ad :: db where
  "db_one_ad = snd (add_advertisement (sample_request ''POST'' (Some 1)) db_signed_up)"

definition db_liked :: db where
  "db_liked = snd (like_advertisement (sample_request ''GET'' (Some 1)) 1 db_one_ad)"

definition db_profile_lost :: db where
  "db_profile_lost = db_one_ad\<lparr>profiles := []\<rparr>"

text \<open>The counters of an advertisement are not negative.\<close>

definition counters_nonneg :: "db \<Rightarrow> bool" where
  "counters_nonneg s = list_all (\<lambda>(k, a). 0 \<le> likes a \<and> 0 \<le> dislikes a) (advertisements s)"

definition db_commented :: db where
  "db_commented =
     snd (Comment_create \<lparr>comment_advertisement = 1, comment_author = 1,
            comment_content = ''Still for sale?'', comment_created_at = 1\<rparr> db_one_ad)"

text \<open>The number of the page that \<open>get_page\<close> returns for a page parameter.\<close>

definition requested_number :: "paginator \<Rightarrow> int option \<Rightarrow> int" where
  "requested_number p n =
     (case n of
        None \<Rightarrow> 1
      | Some k \<Rightarrow> if 1 \<le> k \<and> k \<le> num_pages p then k else num_pages p)"

text \<open>A table of six advertisements, which fills two pages.\<close>

definition sample_advertisement :: "nat \<Rightarrow> advertisement" where
  "sample_advertisement k =
     \<lparr>title = ''Bicycle'', content = ''As new'', author = 1, created_at = k, image = None,
      likes = 0, dislikes = 0\<rparr>"

definition db_six_ads :: db where
  "db_six_ads =
     \<lparr>users = [1],
      advertisements =
        [(1, sample_advertisement 1), (2, sample_advertisement 2), (3, sample_advertisement 3),
         (4, sample_advertisement 4), (5, sample_advertisement 5), (6, sample_advertisement 6)],
      comments = [],
      profiles = [(1, \<lparr>advertisements_count = 6, total_likes = 0, total_dislikes = 0\<rparr>)]\<rparr>"

section \<open>Lemmas\<close>

subsection \<open>Handlers write only profiles; the invariants of reachable databases\<close>

lemma only_profiles_refl: "only_profiles s s"
  by (simp add: only_profiles_def)

lemma only_profiles_trans: "only_profiles s s1 \<Longrightarrow> only_profiles s1 s2 \<Longrightarrow> only_profiles s s2"
  by (auto simp: only_profiles_def)

lemma UserProfile_save_only: "only_profiles s (UserProfile_save u p s)"
  by (auto simp: only_profiles_def UserProfile_save_def update_conv')

lemma on_create_only: "update_user_statistics_on_create a c s = Inr s' \<Longrightarrow> only_profiles s s'"
  by (auto simp: update_user_statistics_on_create_def UserProfile_get_or_create_def
      only_profiles_refl split: if_splits option.splits
      intro: UserProfile_save_only only_profiles_trans)

lemma on_like_only: "update_user_statistics_on_like a s = Inr s' \<Longrightarrow> only_profiles s s'"
  by (auto simp: update_user_statistics_on_like_def only_profiles_refl
      split: if_splits sum.splits intro: UserProfile_save_only)

lemma on_dislike_only: "update_user_statistics_on_dislike a s = Inr s' \<Longrightarrow> only_profiles s s'"
  by (auto simp: update_user_statistics_on_dislike_def only_profiles_refl
      split: if_splits sum.splits intro: UserProfile_save_only)

lemma on_delete_only: "update_user_statistics_on_delete a s = Inr s' \<Longrightarrow> only_profiles s s'"
  by (auto simp: update_user_statistics_on_delete_def
      split: sum.splits intro: UserProfile_save_only)

lemma send_only:
  assumes "\<And>h s s'. h \<in> set hs \<Longrightarrow> h s = Inr s' \<Longrightarrow> only_profiles s s'"
  shows "send hs s = (r, s') \<Longrightarrow> only_profiles s s'"
  using assms
proof (induction hs arbitrary: s)
  case Nil
  then show ?case by (simp add: only_profiles_refl)
next
  case (Cons h hs)
  show ?case
  proof (cases "h s")
    case (Inl e)
    with Cons.prems show ?thesis by (simp add: only_profiles_refl)
  next
    case (Inr s1)
    then have a: "only_profiles s s1" using Cons.prems(2)[of h s s1] by simp
    from Inr Cons.prems(1) have "send hs s1 = (r, s')" by simp
    then have "only_profiles s1 s'"
    proof (rule Cons.IH)
      fix g t t'
      assume "g \<in> set hs" and "g t = Inr t'"
      then show "only_profiles t t'" using Cons.prems(2)[of g t t'] by simp
    qed
    with a show ?thesis by (rule only_profiles_trans)
  qed
qed

lemma post_save_only: "send (post_save a c) s = (r, s') \<Longrightarrow> only_profiles s s'"
  by (erule send_only[rotated])
     (auto simp: post_save_def dest: on_create_only on_like_only on_dislike_only)

lemma post_delete_only: "send (post_delete a) s = (r, s') \<Longrightarrow> only_profiles s s'"
  by (erule send_only[rotated]) (auto simp: post_delete_def dest: on_delete_only)


lemma next_pk_fresh: "next_pk ks \<notin> set ks"
proof -
  have "\<And>k m. k \<in> set ks \<Longrightarrow> k \<le> fold max ks m"
  proof (induction ks)
    case Nil then show ?case by simp
  next
    case (Cons a ks)
    have mono: "\<And>m. m \<le> fold max ks m"
    proof (induction ks)
      case Nil then show ?case by simp
    next
      case (Cons b ks)
      have "m \<le> max b m" by simp
      also have "\<dots> \<le> fold max ks (max b m)" by (rule Cons.IH)
      finally show ?case by simp
    qed
    from Cons.prems consider "k = a" | "k \<in> set ks" by auto
    then show ?case
    proof cases
      case 1
      have "a \<le> max a m" by simp
      also have "\<dots> \<le> fold max ks (max a m)" by (rule mono)
      finally show ?thesis using 1 by simp
    next
      case 2 then show ?thesis using Cons.IH by simp
    qed
  qed
  then have le: "\<And>k. k \<in> set ks \<Longrightarrow> k \<le> fold max ks 0" .
  show ?thesis
  proof
    assume "next_pk ks \<in> set ks"
    then have "next_pk ks \<le> fold max ks 0" by (rule le)
    then show False by (simp add: next_pk_def)
  qed
qed


lemma authors_have_profiles_iff:
  "authors_have_profiles s \<longleftrightarrow>
     (\<forall>(k, a) \<in> set (advertisements s). author a \<in> dom (map_of (profiles s)))"
  by (auto simp: authors_have_profiles_def list_all_iff)

lemma references_live_iff:
  "references_live s \<longleftrightarrow>
     (\<forall>(c, row) \<in> set (comments s).
         comment_advertisement row \<in> fst ` set (advertisements s) \<and>
         comment_author row \<in> set (users s)) \<and>
     (\<forall>(k, a) \<in> set (advertisements s). author a \<in> set (users s))"
  by (auto simp: references_live_def list_all_iff)

lemma set_update_subset: "set (AList.update k v xs) \<subseteq> insert (k, v) (set xs)"
  by (induction xs) auto

lemma keys_update: "fst ` set (AList.update k v xs) = insert k (fst ` set xs)"
proof -
  have "set (map fst (AList.update k v xs)) = insert k (set (map fst xs))"
    by (auto simp: update_keys)
  then show ?thesis by simp
qed

lemma set_delete_subset: "set (AList.delete k xs) \<subseteq> set xs"
  by (auto simp: AList.delete_eq)

lemma keys_delete: "fst ` set (AList.delete k xs) = fst ` set xs - {k}"
  by (auto simp: AList.delete_eq)

lemma authors_have_profilesI:
  assumes "\<And>k a. (k, a) \<in> set (advertisements s) \<Longrightarrow> author a \<in> dom (map_of (profiles s))"
  shows "authors_have_profiles s"
  unfolding authors_have_profiles_iff using assms by fast

lemma authors_have_profilesD:
  "authors_have_profiles s \<Longrightarrow> (k, a) \<in> set (advertisements s) \<Longrightarrow>
     author a \<in> dom (map_of (profiles s))"
  unfolding authors_have_profiles_iff by fast

lemma references_liveI:
  assumes "\<And>c row. (c, row) \<in> set (comments s) \<Longrightarrow>
             comment_advertisement row \<in> fst ` set (advertisements s)"
    and "\<And>c row. (c, row) \<in> set (comments s) \<Longrightarrow> comment_author row \<in> set (users s)"
    and "\<And>k a. (k, a) \<in> set (advertisements s) \<Longrightarrow> author a \<in> set (users s)"
  shows "references_live s"
  unfolding references_live_iff using assms by fast

lemma references_liveD:
  assumes "references_live s"
  shows "(c, row) \<in> set (comments s) \<Longrightarrow>
           comment_advertisement row \<in> fst ` set (advertisements s)"
    and "(c, row) \<in> set (comments s) \<Longrightarrow> comment_author row \<in> set (users s)"
    and "(k, a) \<in> set (advertisements s) \<Longrightarrow> author a \<in> set (users s)"
  using assms unfolding references_live_iff by fast+

lemma ahp_only_profiles:
  assumes "only_profiles s s'" and "authors_have_profiles s"
  shows "authors_have_profiles s'"
proof (rule authors_have_profilesI)
  fix k a assume "(k, a) \<in> set (advertisements s')"
  then have "(k, a) \<in> set (advertisements s)" using assms(1) by (simp add: only_profiles_def)
  then have "author a \<in> dom (map_of (profiles s))"
    using assms(2) by (rule authors_have_profilesD[rotated])
  then show "author a \<in> dom (map_of (profiles s'))"
    using assms(1) unfolding only_profiles_def by fast
qed

lemma live_only_profiles:
  assumes "only_profiles s s'" and "references_live s"
  shows "references_live s'"
proof -
  have "users s' = users s" "advertisements s' = advertisements s" "comments s' = comments s"
    using assms(1) by (simp_all add: only_profiles_def)
  then show ?thesis using assms(2) by (simp add: references_live_def)
qed

lemma inv_only_profiles: "only_profiles s s' \<Longrightarrow> db_invariant s \<Longrightarrow> db_invariant s'"
  by (simp add: db_invariant_def ahp_only_profiles live_only_profiles)

lemma inv_update_row:
  assumes "db_invariant s" and "map_of (advertisements s) k = Some a" and "author a' = author a"
  shows "db_invariant (s\<lparr>advertisements := AList.update k a' (advertisements s)\<rparr>)"
proof -
  let ?s' = "s\<lparr>advertisements := AList.update k a' (advertisements s)\<rparr>"
  have ahp: "authors_have_profiles s" and live: "references_live s"
    using assms(1) by (simp_all add: db_invariant_def)
  have mem: "(k, a) \<in> set (advertisements s)" using assms(2) by (rule map_of_SomeD)
  then have kin: "k \<in> fst ` set (advertisements s)" by force
  have keys: "fst ` set (AList.update k a' (advertisements s)) = fst ` set (advertisements s)"
    using kin by (auto simp: keys_update)
  have row: "\<exists>b0. (j, b0) \<in> set (advertisements s) \<and> author b = author b0"
    if "(j, b) \<in> set (advertisements ?s')" for j b
  proof -
    from that have "(j, b) = (k, a') \<or> (j, b) \<in> set (advertisements s)"
      using set_update_subset[of k a' "advertisements s"] by auto
    then show ?thesis using mem assms(3) by auto
  qed
  have 1: "authors_have_profiles ?s'"
  proof (rule authors_have_profilesI)
    fix j b assume "(j, b) \<in> set (advertisements ?s')"
    then obtain b0 where b0: "(j, b0) \<in> set (advertisements s)" "author b = author b0"
      using row by blast
    have "author b0 \<in> dom (map_of (profiles s))"
      using ahp b0(1) by (rule authors_have_profilesD)
    then show "author b \<in> dom (map_of (profiles ?s'))" using b0(2) by simp
  qed
  have 2: "references_live ?s'"
  proof (rule references_liveI)
    fix c row assume "(c, row) \<in> set (comments ?s')"
    then have m: "(c, row) \<in> set (comments s)" by simp
    show "comment_advertisement row \<in> fst ` set (advertisements ?s')"
      using references_liveD(1)[OF live m] by (simp add: keys)
    show "comment_author row \<in> set (users ?s')"
      using references_liveD(2)[OF live m] by simp
  next
    fix j b assume "(j, b) \<in> set (advertisements ?s')"
    then obtain b0 where b0: "(j, b0) \<in> set (advertisements s)" "author b = author b0"
      using row by blast
    have "author b0 \<in> set (users s)"
      using references_liveD(3)[OF live b0(1)] .
    then show "author b \<in> set (users ?s')" using b0(2) by simp
  qed
  show ?thesis using 1 2 by (simp add: db_invariant_def)
qed

lemma inv_UserProfile_save: "db_invariant s \<Longrightarrow> db_invariant (UserProfile_save u p s)"
  by (rule inv_only_profiles[OF UserProfile_save_only])

lemma send_snd_only:
  assumes "\<And>h s s'. h \<in> set hs \<Longrightarrow> h s = Inr s' \<Longrightarrow> only_profiles s s'"
  shows "only_profiles s (snd (send hs s))"
proof -
  obtain r s' where e: "send hs s = (r, s')" by (cases "send hs s")
  have "only_profiles s s'"
  proof (rule send_only[OF _ e])
    fix h t t' assume "h \<in> set hs" and "h t = Inr t'"
    then show "only_profiles t t'" by (rule assms)
  qed
  then show ?thesis using e by simp
qed

lemma post_save_snd_only: "only_profiles s (snd (send (post_save a c) s))"
  by (rule post_save_only[of a c s "fst (send (post_save a c) s)"]) simp

lemma post_delete_snd_only: "only_profiles s (snd (send (post_delete a) s))"
  by (rule post_delete_only[of a s "fst (send (post_delete a) s)"]) simp

lemma inv_save_update:
  assumes "db_invariant s" and "map_of (advertisements s) k = Some a" and "author a' = author a"
  shows "db_invariant (snd (snd (Advertisement_save (Some k) a' s)))"
proof -
  let ?s1 = "s\<lparr>advertisements := AList.update k a' (advertisements s)\<rparr>"
  have "db_invariant ?s1" using assms by (rule inv_update_row)
  then have "db_invariant (snd (send (post_save a' False) ?s1))"
    by (rule inv_only_profiles[OF post_save_snd_only])
  then show ?thesis by (simp add: Advertisement_save_def)
qed


lemma on_create_True:
  "\<exists>s'. update_user_statistics_on_create a True s = Inr s' \<and>
        author a \<in> dom (map_of (profiles s'))"
  by (cases "map_of (profiles s) (author a)")
     (simp_all add: update_user_statistics_on_create_def UserProfile_get_or_create_def
        UserProfile_save_def update_conv')

lemma on_like_total:
  "author a \<in> dom (map_of (profiles s)) \<Longrightarrow>
     \<exists>s'. update_user_statistics_on_like a s = Inr s'"
  by (auto simp: update_user_statistics_on_like_def UserProfile_get_def)

lemma on_dislike_total:
  "author a \<in> dom (map_of (profiles s)) \<Longrightarrow>
     \<exists>s'. update_user_statistics_on_dislike a s = Inr s'"
  by (auto simp: update_user_statistics_on_dislike_def UserProfile_get_def)

lemma only_profiles_dom:
  "only_profiles s s' \<Longrightarrow> u \<in> dom (map_of (profiles s)) \<Longrightarrow> u \<in> dom (map_of (profiles s'))"
  unfolding only_profiles_def by fast

lemma post_save_insert:
  "\<exists>s'. send (post_save a True) s = (None, s') \<and> only_profiles s s' \<and>
        author a \<in> dom (map_of (profiles s'))"
proof -
  obtain s1 where 1: "update_user_statistics_on_create a True s = Inr s1"
    and d1: "author a \<in> dom (map_of (profiles s1))"
    using on_create_True by blast
  obtain s2 where 2: "update_user_statistics_on_like a s1 = Inr s2"
    using on_like_total[OF d1] by blast
  have d2: "author a \<in> dom (map_of (profiles s2))"
    using on_like_only[OF 2] d1 by (rule only_profiles_dom)
  obtain s3 where 3: "update_user_statistics_on_dislike a s2 = Inr s3"
    using on_dislike_total[OF d2] by blast
  have d3: "author a \<in> dom (map_of (profiles s3))"
    using on_dislike_only[OF 3] d2 by (rule only_profiles_dom)
  have e: "send (post_save a True) s = (None, s3)"
    by (simp add: post_save_def 1 2 3)
  have "only_profiles s s3" using e by (rule post_save_only)
  with e d3 show ?thesis by blast
qed

lemma post_save_update_total:
  assumes "author a \<in> dom (map_of (profiles s))"
  shows "\<exists>s'. send (post_save a False) s = (None, s')"
proof -
  obtain s2 where 2: "update_user_statistics_on_like a s = Inr s2"
    using on_like_total[OF assms] by blast
  have d2: "author a \<in> dom (map_of (profiles s2))"
    using on_like_only[OF 2] assms by (rule only_profiles_dom)
  obtain s3 where 3: "update_user_statistics_on_dislike a s2 = Inr s3"
    using on_dislike_total[OF d2] by blast
  show ?thesis by (simp add: post_save_def update_user_statistics_on_create_def 2 3)
qed

lemma inv_save_insert:
  assumes "db_invariant s" and "author a \<in> set (users s)"
  shows "db_invariant (snd (snd (Advertisement_save None a s)))"
proof -
  let ?k = "next_pk (map fst (advertisements s))"
  let ?s1 = "s\<lparr>advertisements := advertisements s @ [(?k, a)]\<rparr>"
  have ahp: "authors_have_profiles s" and live: "references_live s"
    using assms(1) by (simp_all add: db_invariant_def)
  obtain s' where eq: "send (post_save a True) ?s1 = (None, s')"
    and op: "only_profiles ?s1 s'" and d: "author a \<in> dom (map_of (profiles s'))"
    using post_save_insert[of a ?s1] by blast
  have ads: "advertisements s' = advertisements s @ [(?k, a)]"
    and us: "users s' = users s" and cs: "comments s' = comments s"
    using op by (simp_all add: only_profiles_def)
  have 1: "authors_have_profiles s'"
  proof (rule authors_have_profilesI)
    fix j b assume "(j, b) \<in> set (advertisements s')"
    then consider "(j, b) \<in> set (advertisements s)" | "b = a" by (auto simp: ads)
    then show "author b \<in> dom (map_of (profiles s'))"
    proof cases
      case 1
      then have "author b \<in> dom (map_of (profiles s))" using ahp by (rule authors_have_profilesD[rotated])
      then have "author b \<in> dom (map_of (profiles ?s1))" by simp
      with op show ?thesis by (rule only_profiles_dom)
    next
      case 2 then show ?thesis using d by simp
    qed
  qed
  have 2: "references_live s'"
  proof (rule references_liveI)
    fix c row assume "(c, row) \<in> set (comments s')"
    then have m: "(c, row) \<in> set (comments s)" by (simp add: cs)
    show "comment_advertisement row \<in> fst ` set (advertisements s')"
      using references_liveD(1)[OF live m] by (simp add: ads)
    show "comment_author row \<in> set (users s')"
      using references_liveD(2)[OF live m] by (simp add: us)
  next
    fix j b assume "(j, b) \<in> set (advertisements s')"
    then consider "(j, b) \<in> set (advertisements s)" | "b = a" by (auto simp: ads)
    then show "author b \<in> set (users s')"
    proof cases
      case 1 then show ?thesis using references_liveD(3)[OF live] by (simp add: us)
    next
      case 2 then show ?thesis using assms(2) by (simp add: us)
    qed
  qed
  show ?thesis using eq 1 2 by (simp add: Advertisement_save_def Let_def db_invariant_def)
qed


lemma inv_delete:
  assumes "db_invariant s"
  shows "db_invariant (snd (Advertisement_delete pk a s))"
proof -
  let ?s1 = "s\<lparr>comments := filter (\<lambda>(c, row). comment_advertisement row \<noteq> pk) (comments s),
                 advertisements := AList.delete pk (advertisements s)\<rparr>"
  have ahp: "authors_have_profiles s" and live: "references_live s"
    using assms(1) by (simp_all add: db_invariant_def)
  have sub: "\<And>j b. (j, b) \<in> set (advertisements ?s1) \<Longrightarrow> (j, b) \<in> set (advertisements s)"
    using set_delete_subset[of pk "advertisements s"] by auto
  have 1: "authors_have_profiles ?s1"
  proof (rule authors_have_profilesI)
    fix j b assume "(j, b) \<in> set (advertisements ?s1)"
    then have "(j, b) \<in> set (advertisements s)" by (rule sub)
    then have "author b \<in> dom (map_of (profiles s))" using ahp by (rule authors_have_profilesD[rotated])
    then show "author b \<in> dom (map_of (profiles ?s1))" by simp
  qed
  have 2: "references_live ?s1"
  proof (rule references_liveI)
    fix c row assume "(c, row) \<in> set (comments ?s1)"
    then have m: "(c, row) \<in> set (comments s)" and n: "comment_advertisement row \<noteq> pk" by auto
    show "comment_advertisement row \<in> fst ` set (advertisements ?s1)"
      using references_liveD(1)[OF live m] n by (simp add: keys_delete)
    show "comment_author row \<in> set (users ?s1)"
      using references_liveD(2)[OF live m] by simp
  next
    fix j b assume "(j, b) \<in> set (advertisements ?s1)"
    then have "(j, b) \<in> set (advertisements s)" by (rule sub)
    then show "author b \<in> set (users ?s1)" using references_liveD(3)[OF live] by simp
  qed
  have "db_invariant ?s1" using 1 2 by (simp add: db_invariant_def)
  then have i2: "db_invariant (snd (send (post_delete a) ?s1))"
    by (rule inv_only_profiles[OF post_delete_snd_only])
  obtain r s2 where eq: "send (post_delete a) ?s1 = (r, s2)" by (cases "send (post_delete a) ?s1")
  show ?thesis using eq i2 assms
    by (cases r) (simp_all add: Advertisement_delete_def)
qed

lemma inv_users_append: "db_invariant s \<Longrightarrow> db_invariant (s\<lparr>users := users s @ [u]\<rparr>)"
proof -
  assume i: "db_invariant s"
  have ahp: "authors_have_profiles s" and live: "references_live s"
    using i by (simp_all add: db_invariant_def)
  have 1: "authors_have_profiles (s\<lparr>users := users s @ [u]\<rparr>)"
    using ahp by (simp add: authors_have_profiles_def)
  have 2: "references_live (s\<lparr>users := users s @ [u]\<rparr>)"
  proof (rule references_liveI)
    fix c row assume "(c, row) \<in> set (comments (s\<lparr>users := users s @ [u]\<rparr>))"
    then have m: "(c, row) \<in> set (comments s)" by simp
    show "comment_advertisement row \<in> fst ` set (advertisements (s\<lparr>users := users s @ [u]\<rparr>))"
      using references_liveD(1)[OF live m] by simp
    show "comment_author row \<in> set (users (s\<lparr>users := users s @ [u]\<rparr>))"
      using references_liveD(2)[OF live m] by simp
  next
    fix j b assume "(j, b) \<in> set (advertisements (s\<lparr>users := users s @ [u]\<rparr>))"
    then have "(j, b) \<in> set (advertisements s)" by simp
    then show "author b \<in> set (users (s\<lparr>users := users s @ [u]\<rparr>))"
      using references_liveD(3)[OF live] by simp
  qed
  show ?thesis using 1 2 by (simp add: db_invariant_def)
qed

lemma inv_signup: "db_invariant s \<Longrightarrow> db_invariant (snd (signup request s))"
proof -
  assume i: "db_invariant s"
  let ?s1 = "s\<lparr>users := users s @ [next_pk (users s)]\<rparr>"
  have i1: "db_invariant ?s1" using i by (rule inv_users_append)
  have i2: "db_invariant (UserProfile_save (next_pk (users s)) new_profile ?s1)"
    using i1 by (rule inv_UserProfile_save)
  show ?thesis
  proof (cases "method request = ''POST'' \<and> signup_valid request")
    case False
    then show ?thesis using i by (auto simp: signup_def)
  next
    case True
    show ?thesis
    proof (cases "map_of (profiles ?s1) (next_pk (users s))")
      case None
      then show ?thesis using True i2 by (simp add: signup_def Let_def UserProfile_create_def)
    next
      case (Some p)
      then show ?thesis using True i1 by (simp add: signup_def Let_def UserProfile_create_def)
    qed
  qed
qed

lemma inv_comment: "db_invariant s \<Longrightarrow> db_invariant (snd (Comment_create c s))"
proof -
  assume i: "db_invariant s"
  have ahp: "authors_have_profiles s" and live: "references_live s"
    using i by (simp_all add: db_invariant_def)
  let ?ok = "comment_advertisement c \<in> set (map fst (advertisements s)) \<and>
         comment_author c \<in> set (users s)"
  let ?s1 = "s\<lparr>comments := comments s @ [(next_pk (map fst (comments s)), c)]\<rparr>"
  show ?thesis
  proof (cases ?ok)
    case False
    then have "Comment_create c s = (Some IntegrityError, s)"
      by (auto simp: Comment_create_def)
    then show ?thesis using i by simp
  next
    case True
    have 1: "authors_have_profiles ?s1" using ahp by (simp add: authors_have_profiles_def)
    have 2: "references_live ?s1"
    proof (rule references_liveI)
      fix k row assume "(k, row) \<in> set (comments ?s1)"
      then consider "(k, row) \<in> set (comments s)" | "row = c" by auto
      then show "comment_advertisement row \<in> fst ` set (advertisements ?s1)"
      proof cases
        case 1 then show ?thesis using references_liveD(1)[OF live] by simp
      next
        case 2 then show ?thesis using True by simp
      qed
    next
      fix k row assume "(k, row) \<in> set (comments ?s1)"
      then consider "(k, row) \<in> set (comments s)" | "row = c" by auto
      then show "comment_author row \<in> set (users ?s1)"
      proof cases
        case 1 then show ?thesis using references_liveD(2)[OF live] by simp
      next
        case 2 then show ?thesis using True by simp
      qed
    next
      fix j b assume "(j, b) \<in> set (advertisements ?s1)"
      then have "(j, b) \<in> set (advertisements s)" by simp
      then show "author b \<in> set (users ?s1)" using references_liveD(3)[OF live] by simp
    qed
    have "Comment_create c s = (None, ?s1)" using True by (simp add: Comment_create_def)
    then show ?thesis using 1 2 by (simp add: db_invariant_def)
  qed
qed

lemma on_delete_handlers_only:
  "only_profiles s (snd (send (concat (map (\<lambda>(k, a). post_delete a) own)) s))"
proof (rule send_snd_only)
  fix h t t'
  assume "h \<in> set (concat (map (\<lambda>(k, a). post_delete a) own))" and e: "h t = Inr t'"
  then obtain a where "h = update_user_statistics_on_delete a"
    by (auto simp: post_delete_def)
  with e show "only_profiles t t'" using on_delete_only by simp
qed

lemma inv_user_delete:
  assumes "db_invariant s"
  shows "db_invariant (snd (User_delete u s))"
proof -
  let ?own = "filter (\<lambda>(k, a). author a = u) (advertisements s)"
  let ?s1 = "s\<lparr>comments :=
                   filter (\<lambda>(c, row). comment_author row \<noteq> u \<and>
                             comment_advertisement row \<notin> set (map fst ?own)) (comments s),
                 profiles := AList.delete u (profiles s),
                 advertisements := filter (\<lambda>(k, a). author a \<noteq> u) (advertisements s)\<rparr>"
  let ?hs = "concat (map (\<lambda>(k, a). post_delete a) ?own)"
  have ahp: "authors_have_profiles s" and live: "references_live s"
    using assms(1) by (simp_all add: db_invariant_def)
  obtain r s2 where eq: "send ?hs ?s1 = (r, s2)" by (cases "send ?hs ?s1")
  have op: "only_profiles ?s1 s2" using on_delete_handlers_only[of ?s1 ?own] eq by simp
  let ?s3 = "s2\<lparr>users := removeAll u (users s2)\<rparr>"
  have ads: "advertisements s2 = filter (\<lambda>(k, a). author a \<noteq> u) (advertisements s)"
    and cms: "comments s2 = filter (\<lambda>(c, row). comment_author row \<noteq> u \<and>
                             comment_advertisement row \<notin> set (map fst ?own)) (comments s)"
    and us: "users s2 = users s"
    using op by (simp_all add: only_profiles_def)
  have a: "authors_have_profiles ?s3"
  proof (rule authors_have_profilesI)
    fix k a assume "(k, a) \<in> set (advertisements ?s3)"
    then have m: "(k, a) \<in> set (advertisements s)" and n: "author a \<noteq> u"
      by (auto simp: ads)
    have "author a \<in> dom (map_of (profiles s))"
      using ahp m by (rule authors_have_profilesD)
    with n have "author a \<in> dom (map_of (profiles ?s1))" by (auto simp: delete_conv')
    with op have "author a \<in> dom (map_of (profiles s2))" by (rule only_profiles_dom)
    with n show "author a \<in> dom (map_of (profiles ?s3))" by (auto simp: delete_conv')
  qed
  have b: "references_live ?s3"
  proof (rule references_liveI)
    fix c row assume "(c, row) \<in> set (comments ?s3)"
    then have m: "(c, row) \<in> set (comments s)" and n: "comment_author row \<noteq> u"
      and o: "comment_advertisement row \<notin> fst ` set ?own"
      by (auto simp: cms)
    from references_liveD(1)[OF live m]
    obtain a where l: "(comment_advertisement row, a) \<in> set (advertisements s)" by auto
    have "author a \<noteq> u"
    proof
      assume "author a = u"
      with l have "(comment_advertisement row, a) \<in> set ?own" by simp
      then have "comment_advertisement row \<in> fst ` set ?own" by force
      with o show False by simp
    qed
    with l have "(comment_advertisement row, a) \<in> set (advertisements ?s3)" by (simp add: ads)
    then show "comment_advertisement row \<in> fst ` set (advertisements ?s3)" by force
    show "comment_author row \<in> set (users ?s3)"
      using references_liveD(2)[OF live m] n by (simp add: us)
  next
    fix k a assume "(k, a) \<in> set (advertisements ?s3)"
    then have m: "(k, a) \<in> set (advertisements s)" and n: "author a \<noteq> u"
      by (auto simp: ads)
    show "author a \<in> set (users ?s3)"
      using references_liveD(3)[OF live m] n by (simp add: us)
  qed
  have i3: "db_invariant ?s3" using a b by (simp add: db_invariant_def)
  show ?thesis
  proof (cases r)
    case None
    then have "User_delete u s = (None, ?s3)"
      using eq by (simp add: User_delete_def)
    then show ?thesis using i3 by simp
  next
    case (Some e)
    then have "User_delete u s = (Some e, s)"
      using eq by (simp add: User_delete_def)
    then show ?thesis using assms by simp
  qed
qed

lemma inv_add:
  assumes "db_invariant s" and "known_user request s"
  shows "db_invariant (snd (add_advertisement request s))"
proof (cases "user request")
  case None
  then show ?thesis using assms(1) by (simp add: add_advertisement_def login_required_def)
next
  case (Some u)
  then have u: "u \<in> set (users s)" using assms(2) by (simp add: known_user_def)
  show ?thesis
  proof (cases "method request = ''POST''")
    case False
    then show ?thesis using Some assms(1)
      by (simp add: add_advertisement_def login_required_def add_advertisement_view_def)
  next
    case True
    show ?thesis
    proof (cases "ad_form request")
      case None
      then show ?thesis using Some True assms(1)
        by (simp add: add_advertisement_def login_required_def add_advertisement_view_def)
    next
      case (Some form)
      let ?a = "\<lparr>title = form_title form, content = form_content form, author = u,
                 created_at = now request, image = form_image form,
                 likes = 0, dislikes = 0\<rparr>"
      have i: "db_invariant (snd (snd (Advertisement_save None ?a s)))"
        using assms(1) u by (intro inv_save_insert) simp_all
      obtain k r s1 where e: "Advertisement_save None ?a s = (k, r, s1)"
        by (cases "Advertisement_save None ?a s")
      then have "db_invariant s1" using i by simp
      then show ?thesis using e Some True \<open>user request = Some u\<close>
        by (cases r)
           (simp_all add: add_advertisement_def login_required_def add_advertisement_view_def)
    qed
  qed
qed

lemma inv_edit:
  assumes "db_invariant s"
  shows "db_invariant (snd (edit_advertisement request pk s))"
proof (cases "user request")
  case None
  then show ?thesis using assms(1) by (simp add: edit_advertisement_def login_required_def)
next
  case (Some u)
  show ?thesis
  proof (cases "map_of (advertisements s) pk")
    case None
    then show ?thesis using Some assms(1)
      by (simp add: edit_advertisement_def login_required_def edit_advertisement_view_def
          get_object_or_404_def)
  next
    case (Some a)
    note row = this
    show ?thesis
    proof (cases "Some (author a) = user request \<and> method request = ''POST'' \<and>
                   ad_form request \<noteq> None")
      case False
      then show ?thesis using row \<open>user request = Some u\<close> assms(1)
        by (auto simp: edit_advertisement_def login_required_def edit_advertisement_view_def
            get_object_or_404_def)
    next
      case True
      then obtain form where f: "ad_form request = Some form" by auto
      let ?a = "a\<lparr>title := form_title form, content := form_content form,
                    image := form_image form\<rparr>"
      have i: "db_invariant (snd (snd (Advertisement_save (Some pk) ?a s)))"
        using assms(1) row by (rule inv_save_update) simp
      obtain k r s1 where e: "Advertisement_save (Some pk) ?a s = (k, r, s1)"
        by (cases "Advertisement_save (Some pk) ?a s")
      then have "db_invariant s1" using i by simp
      then show ?thesis using e f True row \<open>user request = Some u\<close>
        by (cases r)
           (simp_all add: edit_advertisement_def login_required_def edit_advertisement_view_def
              get_object_or_404_def)
    qed
  qed
qed

lemma inv_delete_view:
  assumes "db_invariant s"
  shows "db_invariant (snd (delete_advertisement request pk s))"
proof (cases "user request")
  case None
  then show ?thesis using assms(1) by (simp add: delete_advertisement_def login_required_def)
next
  case (Some u)
  show ?thesis
  proof (cases "map_of (advertisements s) pk")
    case None
    then show ?thesis using Some assms(1)
      by (simp add: delete_advertisement_def login_required_def delete_advertisement_view_def
          get_object_or_404_def)
  next
    case (Some a)
    note row = this
    show ?thesis
    proof (cases "Some (author a) = user request \<and> method request = ''POST''")
      case False
      then show ?thesis using row \<open>user request = Some u\<close> assms(1)
        by (auto simp: delete_advertisement_def login_required_def delete_advertisement_view_def
            get_object_or_404_def)
    next
      case True
      have i: "db_invariant (snd (Advertisement_delete pk a s))" using assms(1) by (rule inv_delete)
      obtain r s1 where e: "Advertisement_delete pk a s = (r, s1)"
        by (cases "Advertisement_delete pk a s")
      then have "db_invariant s1" using i by simp
      then show ?thesis using e True row \<open>user request = Some u\<close>
        by (cases r)
           (simp_all add: delete_advertisement_def login_required_def
              delete_advertisement_view_def get_object_or_404_def)
    qed
  qed
qed

lemma inv_like:
  assumes "db_invariant s"
  shows "db_invariant (snd (like_advertisement request pk s))"
proof (cases "user request")
  case None
  then show ?thesis using assms(1) by (simp add: like_advertisement_def login_required_def)
next
  case (Some u)
  show ?thesis
  proof (cases "map_of (advertisements s) pk")
    case None
    then show ?thesis using Some assms(1)
      by (simp add: like_advertisement_def login_required_def like_advertisement_view_def
          get_object_or_404_def)
  next
    case (Some a)
    let ?a = "a\<lparr>likes := likes a + 1\<rparr>"
    have i: "db_invariant (snd (snd (Advertisement_save (Some pk) ?a s)))"
      using assms(1) Some by (rule inv_save_update) simp
    obtain k r s1 where e: "Advertisement_save (Some pk) ?a s = (k, r, s1)"
      by (cases "Advertisement_save (Some pk) ?a s")
    then have i1: "db_invariant s1" using i by simp
    then have i2: "\<And>p. db_invariant (UserProfile_save (author a) p s1)" by (rule inv_UserProfile_save)
    show ?thesis using e i1 i2 Some \<open>user request = Some u\<close>
      by (cases r; cases "UserProfile_get (author a) s1")
         (simp_all add: like_advertisement_def login_required_def
            like_advertisement_view_def get_object_or_404_def)
  qed
qed

lemma inv_dislike:
  assumes "db_invariant s"
  shows "db_invariant (snd (dislike_advertisement request pk s))"
proof (cases "user request")
  case None
  then show ?thesis using assms(1) by (simp add: dislike_advertisement_def login_required_def)
next
  case (Some u)
  show ?thesis
  proof (cases "map_of (advertisements s) pk")
    case None
    then show ?thesis using Some assms(1)
      by (simp add: dislike_advertisement_def login_required_def dislike_advertisement_view_def
          get_object_or_404_def)
  next
    case (Some a)
    let ?a = "a\<lparr>dislikes := dislikes a + 1\<rparr>"
    have i: "db_invariant (snd (snd (Advertisement_save (Some pk) ?a s)))"
      using assms(1) Some by (rule inv_save_update) simp
    obtain k r s1 where e: "Advertisement_save (Some pk) ?a s = (k, r, s1)"
      by (cases "Advertisement_save (Some pk) ?a s")
    then have i1: "db_invariant s1" using i by simp
    then have i2: "\<And>p. db_invariant (UserProfile_save (author a) p s1)" by (rule inv_UserProfile_save)
    show ?thesis using e i1 i2 Some \<open>user request = Some u\<close>
      by (cases r; cases "UserProfile_get (author a) s1")
         (simp_all add: dislike_advertisement_def login_required_def
            dislike_advertisement_view_def get_object_or_404_def)
  qed
qed

lemma inv_read_only:
  "snd (logout_view request s) = s" "snd (home request s) = s"
  "snd (advertisement_list request s) = s" "snd (advertisement_detail request pk s) = s"
  by (simp_all add: logout_view_def home_def advertisement_list_def advertisement_detail_def
      Let_def split: sum.splits)

lemma inv_dispatch:
  assumes "db_invariant s" and "known_user request s"
  shows "db_invariant (snd (dispatch v request s))"
  using assms
  by (cases v)
     (simp_all add: inv_read_only inv_signup inv_add inv_edit inv_delete_view inv_like
        inv_dislike)

lemma inv_empty: "db_invariant empty_db"
  by (simp add: db_invariant_def empty_db_def authors_have_profiles_def references_live_def)

lemma reachable_inv: "reachable s \<Longrightarrow> db_invariant s"
  by (induction rule: reachable.induct)
     (simp_all add: inv_empty inv_dispatch inv_comment inv_user_delete)

subsection \<open>Sample databases, pagination\<close>

lemma db_signed_up_eq:
  "db_signed_up = \<lparr>users = [1], advertisements = [], comments = [],
      profiles = [(1, new_profile)]\<rparr>"
  by (simp add: db_signed_up_def signup_def sample_request_def empty_db_def next_pk_def
      UserProfile_create_def UserProfile_save_def)

lemma db_one_ad_eq:
  "db_one_ad = \<lparr>users = [1],
      advertisements = [(1, \<lparr>title = ''Bicycle'', content = ''As new'', author = 1,
         created_at = 0, image = None, likes = 0, dislikes = 0\<rparr>)],
      comments = [],
      profiles = [(1, \<lparr>advertisements_count = 1, total_likes = 0, total_dislikes = 0\<rparr>)]\<rparr>"
  by (simp add: db_one_ad_def db_signed_up_eq add_advertisement_def login_required_def
      add_advertisement_view_def sample_request_def sample_form_def Advertisement_save_def
      next_pk_def post_save_def update_user_statistics_on_create_def
      update_user_statistics_on_like_def update_user_statistics_on_dislike_def
      UserProfile_get_or_create_def UserProfile_save_def new_profile_def)

lemma db_liked_eq:
  "db_liked = \<lparr>users = [1],
      advertisements = [(1, \<lparr>title = ''Bicycle'', content = ''As new'', author = 1,
         created_at = 0, image = None, likes = 1, dislikes = 0\<rparr>)],
      comments = [],
      profiles = [(1, \<lparr>advertisements_count = 1, total_likes = 2, total_dislikes = 0\<rparr>)]\<rparr>"
  by (simp add: db_liked_def db_one_ad_eq like_advertisement_def login_required_def
      like_advertisement_view_def sample_request_def get_object_or_404_def Advertisement_save_def
      post_save_def update_user_statistics_on_create_def
      update_user_statistics_on_like_def update_user_statistics_on_dislike_def
      UserProfile_get_def UserProfile_save_def)

lemma length_slice: "length (slice xs lo hi) \<le> nat (hi - lo)"
  by (simp add: slice_def)

lemma num_pages_ge_1: "per_page p = 5 \<Longrightarrow> 1 \<le> num_pages p"
  by (simp add: num_pages_def Let_def)

lemma page_of_length:
  assumes "per_page p = 5" and "page_of p k = Inr pg"
  shows "length (object_list pg) \<le> 5"
proof -
  from assms(2) obtain k' where v: "validate_number p (Some k) = Inr k'"
    by (cases "validate_number p (Some k)") (simp_all add: page_of_def)
  let ?bottom = "(k' - 1) * per_page p"
  let ?top0 = "?bottom + per_page p"
  let ?top1 = "if ?top0 \<ge> count p then count p else ?top0"
  have "object_list pg = slice (paginator_object_list p) ?bottom ?top1"
    using assms(2) v by (auto simp: page_of_def Let_def)
  then have "length (object_list pg) \<le> nat (?top1 - ?bottom)"
    by (simp only: length_slice)
  also have "\<dots> \<le> 5" using assms(1) by auto
  finally show ?thesis .
qed

lemma page_of_valid:
  assumes "1 \<le> k" and "k \<le> num_pages p"
  shows "\<exists>pg. page_of p k = Inr pg"
  using assms by (simp add: page_of_def validate_number_def Let_def)

lemma get_page_total:
  assumes "per_page p = 5"
  shows "\<exists>pg. get_page p n = Inr pg \<and> length (object_list pg) \<le> 5"
proof -
  have one: "1 \<le> num_pages p" using assms by (rule num_pages_ge_1)
  have "\<exists>k. 1 \<le> k \<and> k \<le> num_pages p \<and> get_page p n = page_of p k"
  proof (cases n)
    case None
    then show ?thesis using one by (auto simp: get_page_def validate_number_def)
  next
    case (Some j)
    show ?thesis
    proof (cases "j < 1 \<or> j > num_pages p")
      case True
      then have "get_page p n = page_of p (num_pages p)"
        using Some by (auto simp: get_page_def validate_number_def)
      then show ?thesis using one by auto
    next
      case False
      then have "get_page p n = page_of p j"
        using Some by (auto simp: get_page_def validate_number_def)
      moreover have "1 \<le> j" and "j \<le> num_pages p" using False by auto
      ultimately show ?thesis by blast
    qed
  qed
  then obtain k where k: "1 \<le> k" "k \<le> num_pages p" and e: "get_page p n = page_of p k"
    by blast
  obtain pg where pg: "page_of p k = Inr pg" using page_of_valid[OF k] by blast
  then have "length (object_list pg) \<le> 5" using assms by (rule page_of_length[rotated])
  with e pg show ?thesis by simp
qed

subsection \<open>Counters, exact effect of a save, cascade of a user deletion\<close>

lemma counters_nonnegI:
  assumes "\<And>k a. (k, a) \<in> set (advertisements s) \<Longrightarrow> 0 \<le> likes a \<and> 0 \<le> dislikes a"
  shows "counters_nonneg s"
  using assms by (auto simp: counters_nonneg_def list_all_iff)

lemma counters_nonnegD:
  "counters_nonneg s \<Longrightarrow> (k, a) \<in> set (advertisements s) \<Longrightarrow> 0 \<le> likes a \<and> 0 \<le> dislikes a"
  by (auto simp: counters_nonneg_def list_all_iff)

lemma counters_nonneg_cong:
  "advertisements s' = advertisements s \<Longrightarrow> counters_nonneg s \<Longrightarrow> counters_nonneg s'"
  by (simp add: counters_nonneg_def)

lemma counters_nonneg_subset:
  assumes "set (advertisements s') \<subseteq> set (advertisements s)" and "counters_nonneg s"
  shows "counters_nonneg s'"
proof (rule counters_nonnegI)
  fix k a assume "(k, a) \<in> set (advertisements s')"
  then have "(k, a) \<in> set (advertisements s)" using assms(1) by fast
  with assms(2) show "0 \<le> likes a \<and> 0 \<le> dislikes a" by (rule counters_nonnegD)
qed

lemma ads_after_save_update:
  "advertisements (snd (snd (Advertisement_save (Some k) a' s)))
     = AList.update k a' (advertisements s)"
  using post_save_snd_only[of "s\<lparr>advertisements := AList.update k a' (advertisements s)\<rparr>" a' False]
  by (simp add: Advertisement_save_def only_profiles_def)

lemma ads_after_save_insert:
  "advertisements (snd (snd (Advertisement_save None a s)))
     = advertisements s @ [(next_pk (map fst (advertisements s)), a)]"
  using post_save_snd_only[of "s\<lparr>advertisements := advertisements s @
           [(next_pk (map fst (advertisements s)), a)]\<rparr>" a True]
  by (simp add: Advertisement_save_def only_profiles_def Let_def)

lemma ads_after_delete:
  "set (advertisements (snd (Advertisement_delete pk a s))) \<subseteq> set (advertisements s)"
proof -
  let ?s1 = "s\<lparr>comments := filter (\<lambda>(c, row). comment_advertisement row \<noteq> pk) (comments s),
                 advertisements := AList.delete pk (advertisements s)\<rparr>"
  obtain r s2 where e: "send (post_delete a) ?s1 = (r, s2)" by (cases "send (post_delete a) ?s1")
  then have "only_profiles ?s1 s2" by (rule post_delete_only)
  then have "advertisements s2 = AList.delete pk (advertisements s)"
    by (simp add: only_profiles_def)
  then have "set (advertisements s2) \<subseteq> set (advertisements s)"
    using set_delete_subset[of pk "advertisements s"] by simp
  then show ?thesis using e by (cases r) (simp_all add: Advertisement_delete_def)
qed

lemma ads_after_user_delete:
  "set (advertisements (snd (User_delete u s))) \<subseteq> set (advertisements s)"
proof -
  let ?own = "filter (\<lambda>(k, a). author a = u) (advertisements s)"
  let ?s1 = "s\<lparr>comments :=
                   filter (\<lambda>(c, row). comment_author row \<noteq> u \<and>
                             comment_advertisement row \<notin> set (map fst ?own)) (comments s),
                 profiles := AList.delete u (profiles s),
                 advertisements := filter (\<lambda>(k, a). author a \<noteq> u) (advertisements s)\<rparr>"
  let ?hs = "concat (map (\<lambda>(k, a). post_delete a) ?own)"
  obtain r s2 where e: "send ?hs ?s1 = (r, s2)" by (cases "send ?hs ?s1")
  have "only_profiles ?s1 s2" using on_delete_handlers_only[of ?s1 ?own] e by simp
  then have "advertisements s2 = filter (\<lambda>(k, a). author a \<noteq> u) (advertisements s)"
    by (simp add: only_profiles_def)
  then have "set (advertisements s2) \<subseteq> set (advertisements s)" by auto
  then show ?thesis using e by (cases r) (simp_all add: User_delete_def)
qed

lemma nonneg_update:
  assumes "counters_nonneg s" and "0 \<le> likes a' \<and> 0 \<le> dislikes a'"
    and "advertisements s' = AList.update k a' (advertisements s)"
  shows "counters_nonneg s'"
proof (rule counters_nonnegI)
  fix j b assume "(j, b) \<in> set (advertisements s')"
  then have "(j, b) = (k, a') \<or> (j, b) \<in> set (advertisements s)"
    using set_update_subset[of k a' "advertisements s"] assms(3) by auto
  then show "0 \<le> likes b \<and> 0 \<le> dislikes b"
    using assms(1,2) counters_nonnegD by blast
qed

lemma nonneg_append:
  assumes "counters_nonneg s" and "0 \<le> likes a' \<and> 0 \<le> dislikes a'"
    and "advertisements s' = advertisements s @ [(k, a')]"
  shows "counters_nonneg s'"
  using assms by (simp add: counters_nonneg_def)

lemma ads_UserProfile_save: "advertisements (UserProfile_save u p s) = advertisements s"
  by (simp add: UserProfile_save_def)

lemma nonneg_add:
  assumes "counters_nonneg s"
  shows "counters_nonneg (snd (add_advertisement request s))"
proof (cases "user request \<noteq> None \<and> method request = ''POST'' \<and> ad_form request \<noteq> None")
  case False
  then have "snd (add_advertisement request s) = s"
    by (auto simp: add_advertisement_def login_required_def add_advertisement_view_def
        split: option.splits)
  then show ?thesis using assms by simp
next
  case True
  then obtain u form where u: "user request = Some u" and f: "ad_form request = Some form"
    and m: "method request = ''POST''" by auto
  let ?a = "\<lparr>title = form_title form, content = form_content form, author = u,
             created_at = now request, image = form_image form, likes = 0, dislikes = 0\<rparr>"
  obtain k r s1 where e: "Advertisement_save None ?a s = (k, r, s1)"
    by (cases "Advertisement_save None ?a s")
  have ads: "advertisements s1 = advertisements s @ [(next_pk (map fst (advertisements s)), ?a)]"
    using ads_after_save_insert[of ?a s] e by simp
  have "counters_nonneg s1" by (rule nonneg_append[OF assms _ ads]) simp
  then show ?thesis using e u f m
    by (cases r)
       (simp_all add: add_advertisement_def login_required_def add_advertisement_view_def)
qed

lemma nonneg_edit:
  assumes "counters_nonneg s"
  shows "counters_nonneg (snd (edit_advertisement request pk s))"
proof (cases "map_of (advertisements s) pk")
  case None
  then have "snd (edit_advertisement request pk s) = s"
    by (simp add: edit_advertisement_def login_required_def edit_advertisement_view_def
        get_object_or_404_def split: option.splits)
  then show ?thesis using assms by simp
next
  case (Some a)
  show ?thesis
  proof (cases "user request = Some (author a) \<and> method request = ''POST'' \<and>
                 ad_form request \<noteq> None")
    case False
    then have "snd (edit_advertisement request pk s) = s" using Some
      by (auto simp: edit_advertisement_def login_required_def edit_advertisement_view_def
          get_object_or_404_def split: option.splits)
    then show ?thesis using assms by simp
  next
    case True
    then obtain form where f: "ad_form request = Some form" by auto
    let ?a = "a\<lparr>title := form_title form, content := form_content form,
                  image := form_image form\<rparr>"
    obtain k r s1 where e: "Advertisement_save (Some pk) ?a s = (k, r, s1)"
      by (cases "Advertisement_save (Some pk) ?a s")
    have old: "0 \<le> likes a \<and> 0 \<le> dislikes a"
      using assms map_of_SomeD[OF Some] by (rule counters_nonnegD)
    have ads: "advertisements s1 = AList.update pk ?a (advertisements s)"
      using ads_after_save_update[of pk ?a s] e by simp
    have "counters_nonneg s1" by (rule nonneg_update[OF assms _ ads]) (simp add: old)
    then show ?thesis using e f True Some
      by (cases r)
         (simp_all add: edit_advertisement_def login_required_def edit_advertisement_view_def
            get_object_or_404_def)
  qed
qed

lemma nonneg_delete_view:
  assumes "counters_nonneg s"
  shows "counters_nonneg (snd (delete_advertisement request pk s))"
proof (cases "map_of (advertisements s) pk")
  case None
  then have "snd (delete_advertisement request pk s) = s"
    by (simp add: delete_advertisement_def login_required_def delete_advertisement_view_def
        get_object_or_404_def split: option.splits)
  then show ?thesis using assms by simp
next
  case (Some a)
  show ?thesis
  proof (cases "user request = Some (author a) \<and> method request = ''POST''")
    case False
    then have "snd (delete_advertisement request pk s) = s" using Some
      by (auto simp: delete_advertisement_def login_required_def delete_advertisement_view_def
          get_object_or_404_def split: option.splits)
    then show ?thesis using assms by simp
  next
    case True
    obtain r s1 where e: "Advertisement_delete pk a s = (r, s1)"
      by (cases "Advertisement_delete pk a s")
    have "set (advertisements s1) \<subseteq> set (advertisements s)"
      using ads_after_delete[of pk a s] e by simp
    then have "counters_nonneg s1" using assms by (rule counters_nonneg_subset)
    then show ?thesis using e True Some
      by (cases r)
         (simp_all add: delete_advertisement_def login_required_def
            delete_advertisement_view_def get_object_or_404_def)
  qed
qed

lemma nonneg_like:
  assumes "counters_nonneg s"
  shows "counters_nonneg (snd (like_advertisement request pk s))"
proof (cases "user request \<noteq> None \<and> map_of (advertisements s) pk \<noteq> None")
  case False
  then have "snd (like_advertisement request pk s) = s"
    by (auto simp: like_advertisement_def login_required_def like_advertisement_view_def
        get_object_or_404_def split: option.splits)
  then show ?thesis using assms by simp
next
  case True
  then obtain u a where u: "user request = Some u" and a: "map_of (advertisements s) pk = Some a"
    by auto
  let ?a = "a\<lparr>likes := likes a + 1\<rparr>"
  obtain k r s1 where e: "Advertisement_save (Some pk) ?a s = (k, r, s1)"
    by (cases "Advertisement_save (Some pk) ?a s")
  have old: "0 \<le> likes a \<and> 0 \<le> dislikes a"
    using assms map_of_SomeD[OF a] by (rule counters_nonnegD)
  have ads: "advertisements s1 = AList.update pk ?a (advertisements s)"
    using ads_after_save_update[of pk ?a s] e by simp
  have n1: "counters_nonneg s1" by (rule nonneg_update[OF assms _ ads]) (simp add: old)
  then have n2: "\<And>p. counters_nonneg (UserProfile_save (author a) p s1)"
    by (rule counters_nonneg_cong[OF ads_UserProfile_save])
  show ?thesis using e n1 n2 u a
    by (cases r; cases "UserProfile_get (author a) s1")
       (simp_all add: like_advertisement_def login_required_def
          like_advertisement_view_def get_object_or_404_def)
qed

lemma nonneg_dislike:
  assumes "counters_nonneg s"
  shows "counters_nonneg (snd (dislike_advertisement request pk s))"
proof (cases "user request \<noteq> None \<and> map_of (advertisements s) pk \<noteq> None")
  case False
  then have "snd (dislike_advertisement request pk s) = s"
    by (auto simp: dislike_advertisement_def login_required_def dislike_advertisement_view_def
        get_object_or_404_def split: option.splits)
  then show ?thesis using assms by simp
next
  case True
  then obtain u a where u: "user request = Some u" and a: "map_of (advertisements s) pk = Some a"
    by auto
  let ?a = "a\<lparr>dislikes := dislikes a + 1\<rparr>"
  obtain k r s1 where e: "Advertisement_save (Some pk) ?a s = (k, r, s1)"
    by (cases "Advertisement_save (Some pk) ?a s")
  have old: "0 \<le> likes a \<and> 0 \<le> dislikes a"
    using assms map_of_SomeD[OF a] by (rule counters_nonnegD)
  have ads: "advertisements s1 = AList.update pk ?a (advertisements s)"
    using ads_after_save_update[of pk ?a s] e by simp
  have n1: "counters_nonneg s1" by (rule nonneg_update[OF assms _ ads]) (simp add: old)
  then have n2: "\<And>p. counters_nonneg (UserProfile_save (author a) p s1)"
    by (rule counters_nonneg_cong[OF ads_UserProfile_save])
  show ?thesis using e n1 n2 u a
    by (cases r; cases "UserProfile_get (author a) s1")
       (simp_all add: dislike_advertisement_def login_required_def
          dislike_advertisement_view_def get_object_or_404_def)
qed

lemma nonneg_signup: "counters_nonneg s \<Longrightarrow> counters_nonneg (snd (signup request s))"
  by (auto simp: signup_def Let_def UserProfile_create_def UserProfile_save_def
      counters_nonneg_def split: option.splits)

lemma nonneg_dispatch:
  assumes "counters_nonneg s"
  shows "counters_nonneg (snd (dispatch v request s))"
  using assms
  by (cases v)
     (simp_all add: inv_read_only nonneg_signup nonneg_add nonneg_edit nonneg_delete_view
        nonneg_like nonneg_dislike)

lemma reachable_nonneg: "reachable s \<Longrightarrow> counters_nonneg s"
proof (induction rule: reachable.induct)
  case reachable_empty
  show ?case by (simp add: counters_nonneg_def empty_db_def)
next
  case (reachable_request s request v)
  then show ?case by (simp add: nonneg_dispatch)
next
  case (reachable_comment s c)
  then show ?case by (auto simp: Comment_create_def counters_nonneg_def)
next
  case (reachable_user_delete s u)
  from reachable_user_delete.IH show ?case
    by (rule counters_nonneg_subset[OF ads_after_user_delete])
qed

lemma post_save_update:
  assumes "map_of (profiles s) (author a) = Some p"
  shows "\<exists>s'. send (post_save a False) s = (None, s') \<and>
           advertisements s' = advertisements s \<and> users s' = users s \<and>
           comments s' = comments s \<and>
           map_of (profiles s') = (map_of (profiles s))(author a \<mapsto> counted a p)"
proof -
  let ?p1 = "if 0 < likes a then p\<lparr>total_likes := total_likes p + 1\<rparr> else p"
  let ?s1 = "if 0 < likes a then UserProfile_save (author a) ?p1 s else s"
  let ?p2 = "if 0 < dislikes a then ?p1\<lparr>total_dislikes := total_dislikes ?p1 + 1\<rparr> else ?p1"
  let ?s2 = "if 0 < dislikes a then UserProfile_save (author a) ?p2 ?s1 else ?s1"
  have 1: "update_user_statistics_on_like a s = Inr ?s1"
    using assms by (simp add: update_user_statistics_on_like_def UserProfile_get_def)
  have m1: "map_of (profiles ?s1) (author a) = Some ?p1"
    using assms by (simp add: UserProfile_save_def update_conv')
  have 2: "update_user_statistics_on_dislike a ?s1 = Inr ?s2"
    using m1 by (simp add: update_user_statistics_on_dislike_def UserProfile_get_def)
  have e: "send (post_save a False) s = (None, ?s2)"
    by (simp add: post_save_def update_user_statistics_on_create_def 1 2)
  have f: "advertisements ?s2 = advertisements s \<and> users ?s2 = users s \<and>
           comments ?s2 = comments s"
    by (simp add: UserProfile_save_def)
  have c: "?p2 = counted a p" by (simp add: counted_def)
  have "map_of (profiles ?s2) = (map_of (profiles s))(author a \<mapsto> ?p2)"
    using assms by (auto simp: UserProfile_save_def update_conv' fun_eq_iff)
  then have g: "map_of (profiles ?s2) = (map_of (profiles s))(author a \<mapsto> counted a p)"
    by (simp only: c)
  show ?thesis using e f g by blast
qed

lemma save_update_exact:
  assumes "map_of (profiles s) (author a') = Some p"
  shows "\<exists>s'. Advertisement_save (Some pk) a' s = (pk, None, s') \<and>
           advertisements s' = AList.update pk a' (advertisements s) \<and>
           users s' = users s \<and> comments s' = comments s \<and>
           map_of (profiles s') = (map_of (profiles s))(author a' \<mapsto> counted a' p)"
proof -
  let ?s0 = "s\<lparr>advertisements := AList.update pk a' (advertisements s)\<rparr>"
  have "map_of (profiles ?s0) (author a') = Some p" using assms by simp
  from post_save_update[OF this]
  obtain s' where "send (post_save a' False) ?s0 = (None, s')"
    and "advertisements s' = advertisements ?s0" and "users s' = users ?s0"
    and "comments s' = comments ?s0"
    and "map_of (profiles s') = (map_of (profiles ?s0))(author a' \<mapsto> counted a' p)"
    by blast
  then show ?thesis by (simp add: Advertisement_save_def)
qed

lemma reachable_author_profile:
  assumes "reachable s" and "map_of (advertisements s) pk = Some a"
  shows "\<exists>p. map_of (profiles s) (author a) = Some p"
proof -
  have "authors_have_profiles s" using reachable_inv[OF assms(1)] by (simp add: db_invariant_def)
  then have "author a \<in> dom (map_of (profiles s))"
    using map_of_SomeD[OF assms(2)] by (rule authors_have_profilesD)
  then show ?thesis by auto
qed

lemma reachable_row_nonneg:
  assumes "reachable s" and "map_of (advertisements s) pk = Some a"
  shows "0 \<le> likes a \<and> 0 \<le> dislikes a"
  using reachable_nonneg[OF assms(1)] map_of_SomeD[OF assms(2)] by (rule counters_nonnegD)

lemma like_exact:
  assumes "map_of (advertisements s) pk = Some a" and "user request = Some u"
    and "map_of (profiles s) (author a) = Some p"
  shows "\<exists>s'. like_advertisement request pk s
             = (Inr (Redirect ''board:advertisement_detail'' (Some pk)), s') \<and>
           map_of (advertisements s') pk = Some (a\<lparr>likes := likes a + 1\<rparr>) \<and>
           map_of (profiles s') (author a)
             = Some ((counted (a\<lparr>likes := likes a + 1\<rparr>) p)
                      \<lparr>total_likes := total_likes (counted (a\<lparr>likes := likes a + 1\<rparr>) p) + 1\<rparr>)"
proof -
  let ?a = "a\<lparr>likes := likes a + 1\<rparr>"
  have "map_of (profiles s) (author ?a) = Some p" using assms(3) by simp
  from save_update_exact[OF this, of pk]
  obtain s1 where e: "Advertisement_save (Some pk) ?a s = (pk, None, s1)"
    and ads: "advertisements s1 = AList.update pk ?a (advertisements s)"
    and pr: "map_of (profiles s1) = (map_of (profiles s))(author a \<mapsto> counted ?a p)"
    by auto
  let ?p' = "(counted ?a p)\<lparr>total_likes := total_likes (counted ?a p) + 1\<rparr>"
  have g: "UserProfile_get (author a) s1 = Inr (counted ?a p)"
    by (simp add: UserProfile_get_def pr)
  have v: "like_advertisement request pk s
             = (Inr (Redirect ''board:advertisement_detail'' (Some pk)),
                UserProfile_save (author a) ?p' s1)"
    using assms(1,2) e g
    by (simp add: like_advertisement_def login_required_def like_advertisement_view_def
        get_object_or_404_def Let_def)
  have "map_of (advertisements (UserProfile_save (author a) ?p' s1)) pk = Some ?a"
    by (simp add: UserProfile_save_def ads update_conv')
  moreover have "map_of (profiles (UserProfile_save (author a) ?p' s1)) (author a) = Some ?p'"
    by (simp add: UserProfile_save_def update_conv')
  ultimately show ?thesis using v by blast
qed

lemma dislike_exact:
  assumes "map_of (advertisements s) pk = Some a" and "user request = Some u"
    and "map_of (profiles s) (author a) = Some p"
  shows "\<exists>s'. dislike_advertisement request pk s
             = (Inr (Redirect ''board:advertisement_detail'' (Some pk)), s') \<and>
           map_of (advertisements s') pk = Some (a\<lparr>dislikes := dislikes a + 1\<rparr>) \<and>
           map_of (profiles s') (author a)
             = Some ((counted (a\<lparr>dislikes := dislikes a + 1\<rparr>) p)
                      \<lparr>total_dislikes :=
                         total_dislikes (counted (a\<lparr>dislikes := dislikes a + 1\<rparr>) p) + 1\<rparr>)"
proof -
  let ?a = "a\<lparr>dislikes := dislikes a + 1\<rparr>"
  have "map_of (profiles s) (author ?a) = Some p" using assms(3) by simp
  from save_update_exact[OF this, of pk]
  obtain s1 where e: "Advertisement_save (Some pk) ?a s = (pk, None, s1)"
    and ads: "advertisements s1 = AList.update pk ?a (advertisements s)"
    and pr: "map_of (profiles s1) = (map_of (profiles s))(author a \<mapsto> counted ?a p)"
    by auto
  let ?p' = "(counted ?a p)\<lparr>total_dislikes := total_dislikes (counted ?a p) + 1\<rparr>"
  have g: "UserProfile_get (author a) s1 = Inr (counted ?a p)"
    by (simp add: UserProfile_get_def pr)
  have v: "dislike_advertisement request pk s
             = (Inr (Redirect ''board:advertisement_detail'' (Some pk)),
                UserProfile_save (author a) ?p' s1)"
    using assms(1,2) e g
    by (simp add: dislike_advertisement_def login_required_def dislike_advertisement_view_def
        get_object_or_404_def Let_def)
  have "map_of (advertisements (UserProfile_save (author a) ?p' s1)) pk = Some ?a"
    by (simp add: UserProfile_save_def ads update_conv')
  moreover have "map_of (profiles (UserProfile_save (author a) ?p' s1)) (author a) = Some ?p'"
    by (simp add: UserProfile_save_def update_conv')
  ultimately show ?thesis using v by blast
qed

lemma reachable_db_signed_up: "reachable db_signed_up"
proof -
  have k: "known_user (sample_request ''POST'' None) empty_db"
    by (simp add: known_user_def sample_request_def)
  have "reachable (snd (dispatch Signup (sample_request ''POST'' None) empty_db))"
    using reachable_empty k by (rule reachable_request)
  then show ?thesis by (simp add: db_signed_up_def)
qed

lemma reachable_db_one_ad: "reachable db_one_ad"
proof -
  have k: "known_user (sample_request ''POST'' (Some 1)) db_signed_up"
    by (simp add: known_user_def sample_request_def db_signed_up_eq)
  have "reachable (snd (dispatch Add_advertisement (sample_request ''POST'' (Some 1)) db_signed_up))"
    using reachable_db_signed_up k by (rule reachable_request)
  then show ?thesis by (simp add: db_one_ad_def)
qed

lemma reachable_db_liked: "reachable db_liked"
proof -
  have k: "known_user (sample_request ''GET'' (Some 1)) db_one_ad"
    by (simp add: known_user_def sample_request_def db_one_ad_eq)
  have "reachable (snd (dispatch (Like_advertisement 1) (sample_request ''GET'' (Some 1)) db_one_ad))"
    using reachable_db_one_ad k by (rule reachable_request)
  then show ?thesis by (simp add: db_liked_def)
qed

lemma db_commented_eq:
  "db_commented = \<lparr>users = [1],
      advertisements = [(1, \<lparr>title = ''Bicycle'', content = ''As new'', author = 1,
         created_at = 0, image = None, likes = 0, dislikes = 0\<rparr>)],
      comments = [(1, \<lparr>comment_advertisement = 1, comment_author = 1,
            comment_content = ''Still for sale?'', comment_created_at = 1\<rparr>)],
      profiles = [(1, \<lparr>advertisements_count = 1, total_likes = 0, total_dislikes = 0\<rparr>)]\<rparr>"
  by (simp add: db_commented_def db_one_ad_eq Comment_create_def next_pk_def)

lemma reachable_db_commented: "reachable db_commented"
  unfolding db_commented_def using reachable_db_one_ad by (rule reachable_comment)

lemma delete_handlers_fail:
  assumes "u \<notin> dom (map_of (profiles s))" and "\<And>k a. (k, a) \<in> set own \<Longrightarrow> author a = u"
    and "own \<noteq> []"
  shows "fst (send (concat (map (\<lambda>(k, a). post_delete a) own)) s) = Some DoesNotExist"
proof -
  obtain k a rest where o: "own = (k, a) # rest" using assms(3) by (cases own) auto
  have au: "author a = u" using assms(2)[of k a] o by simp
  have "update_user_statistics_on_delete a s = Inl DoesNotExist"
    using assms(1) au
    by (auto simp: update_user_statistics_on_delete_def UserProfile_get_def domIff)
  then show ?thesis using o by (simp add: post_delete_def)
qed

lemma User_delete_owner_raises:
  assumes "advertisements_of u s \<noteq> []"
  shows "User_delete u s = (Some DoesNotExist, s)"
proof -
  let ?own = "filter (\<lambda>(k, a). author a = u) (advertisements s)"
  let ?s1 = "s\<lparr>comments :=
                   filter (\<lambda>(c, row). comment_author row \<noteq> u \<and>
                             comment_advertisement row \<notin> set (map fst ?own)) (comments s),
                 profiles := AList.delete u (profiles s),
                 advertisements := filter (\<lambda>(k, a). author a \<noteq> u) (advertisements s)\<rparr>"
  let ?hs = "concat (map (\<lambda>(k, a). post_delete a) ?own)"
  have ne: "?own \<noteq> []" using assms by (simp add: advertisements_of_def)
  have own_author: "\<And>k a. (k, a) \<in> set ?own \<Longrightarrow> author a = u" by auto
  have "u \<notin> dom (map_of (profiles ?s1))" by (simp add: delete_conv')
  then have "fst (send ?hs ?s1) = Some DoesNotExist"
    using own_author ne by (rule delete_handlers_fail)
  then obtain s2 where "send ?hs ?s1 = (Some DoesNotExist, s2)"
    by (cases "send ?hs ?s1") auto
  then show ?thesis by (simp add: User_delete_def)
qed

lemma User_delete_without_advertisements:
  assumes "advertisements_of u s = []"
  shows "User_delete u s
           = (None, s\<lparr>comments := filter (\<lambda>(c, row). comment_author row \<noteq> u) (comments s),
                      profiles := AList.delete u (profiles s),
                      users := removeAll u (users s)\<rparr>)"
proof -
  have own: "filter (\<lambda>(k, a). author a = u) (advertisements s) = []"
    using assms by (simp add: advertisements_of_def)
  then have "\<And>x. x \<in> set (advertisements s) \<Longrightarrow> (case x of (k, a) \<Rightarrow> author a \<noteq> u)"
    by (auto simp: filter_empty_conv)
  then have keep: "filter (\<lambda>(k, a). author a \<noteq> u) (advertisements s) = advertisements s"
    by (intro filter_True) auto
  show ?thesis by (simp add: User_delete_def own keep)
qed

subsection \<open>The page of the list view, exactly\<close>

lemma slice_page:
  assumes "0 \<le> b"
  shows "slice xs b (if b + 5 \<ge> int (length xs) then int (length xs) else b + 5)
           = take 5 (drop (nat b) xs)"
proof (cases "b + 5 \<ge> int (length xs)")
  case True
  have l: "length (drop (nat b) xs) \<le> 5" using True assms by simp
  have "nat (int (length xs) - b) \<ge> length (drop (nat b) xs)" using assms by simp
  then have "take (nat (int (length xs) - b)) (drop (nat b) xs) = drop (nat b) xs"
    by (rule take_all)
  moreover have "take 5 (drop (nat b) xs) = drop (nat b) xs" using l by (rule take_all)
  ultimately show ?thesis using True by (simp add: slice_def)
next
  case False
  then show ?thesis by (simp add: slice_def)
qed

lemma page_of_exact:
  assumes "per_page p = 5" and "1 \<le> k" and "k \<le> num_pages p"
  shows "page_of p k
           = Inr \<lparr>object_list = take 5 (drop (5 * nat (k - 1)) (paginator_object_list p)),
                  number = k\<rparr>"
proof -
  have v: "validate_number p (Some k) = Inr k" using assms(2,3) by (simp add: validate_number_def)
  have b: "0 \<le> (k - 1) * 5" using assms(2) by simp
  have n: "nat ((k - 1) * 5) = 5 * nat (k - 1)" using assms(2) by (simp add: nat_mult_distrib)
  have sl: "slice (paginator_object_list p) ((k - 1) * 5)
           (if (k - 1) * 5 + 5 \<ge> int (length (paginator_object_list p))
            then int (length (paginator_object_list p)) else (k - 1) * 5 + 5)
          = take 5 (drop (5 * nat (k - 1)) (paginator_object_list p))"
    using slice_page[OF b, of "paginator_object_list p"] by (simp only: n)
  have "page_of p k
          = Inr \<lparr>object_list = slice (paginator_object_list p) ((k - 1) * 5)
                   (if (k - 1) * 5 + 5 \<ge> int (length (paginator_object_list p))
                    then int (length (paginator_object_list p)) else (k - 1) * 5 + 5),
                 number = k\<rparr>"
    by (simp only: page_of_def v Let_def assms(1) count_def sum.case)
  then show ?thesis by (simp only: sl)
qed

lemma get_page_exact:
  assumes "per_page p = 5"
  shows "get_page p n
           = Inr \<lparr>object_list =
                    take 5 (drop (5 * nat (requested_number p n - 1)) (paginator_object_list p)),
                  number = requested_number p n\<rparr>"
proof -
  have one: "1 \<le> num_pages p" using assms by (rule num_pages_ge_1)
  have g: "get_page p n = page_of p (requested_number p n)"
  proof (cases n)
    case None
    then show ?thesis by (simp add: get_page_def validate_number_def requested_number_def)
  next
    case (Some j)
    then show ?thesis
      by (cases "j < 1 \<or> j > num_pages p")
         (auto simp: get_page_def validate_number_def requested_number_def)
  qed
  have r: "1 \<le> requested_number p n \<and> requested_number p n \<le> num_pages p"
    using one by (auto simp: requested_number_def split: option.splits)
  show ?thesis using g page_of_exact[OF assms, of "requested_number p n"] r by simp
qed

lemma concat_pages: "concat (map (\<lambda>i. take n (drop (n * i) xs)) [0..<m]) = take (n * m) xs"
proof (induction m)
  case 0
  show ?case by simp
next
  case (Suc m)
  have "take (n * Suc m) xs = take (n * m + n) xs" by (simp add: add.commute)
  also have "\<dots> = take (n * m) xs @ take n (drop (n * m) xs)" by (rule take_add)
  finally show ?case using Suc by simp
qed

lemma pages_cover:
  assumes "per_page p = 5"
  shows "concat (map (\<lambda>i. take 5 (drop (5 * i) (paginator_object_list p))) [0..<nat (num_pages p)])
           = paginator_object_list p"
proof -
  have "int (length (paginator_object_list p)) \<le> 5 * num_pages p"
    using assms by (simp add: num_pages_def count_def Let_def)
  then have "length (paginator_object_list p) \<le> 5 * nat (num_pages p)" by linarith
  then show ?thesis by (simp add: concat_pages)
qed

section \<open>The claims\<close>

text \<open>
  Claim C1 says that in every reachable database the profile of each user caches the
  statistics of that user's advertisements: their number and the sums of their likes and
  dislikes. The code breaks it. After a signup, one added advertisement and one like, the
  advertisement has one like and the profile of its author counts two: the view adds one and
  the \<open>post_save\<close> receiver adds one more. Before the like the profile and the
  statistics agree.
\<close>

theorem C1_statistics_diverge_after_like:
  "reachable db_liked \<and>
   map_of (profiles db_liked) 1
     = Some \<lparr>advertisements_count = 1, total_likes = 2, total_dislikes = 0\<rparr> \<and>
   statistics_of 1 db_liked
     = \<lparr>advertisements_count = 1, total_likes = 1, total_dislikes = 0\<rparr> \<and>
   statistics_consistent db_liked = False \<and>
   statistics_consistent db_one_ad = True"
proof -
  have "map_of (profiles db_liked) 1
     = Some \<lparr>advertisements_count = 1, total_likes = 2, total_dislikes = 0\<rparr>"
    by (simp add: db_liked_eq)
  moreover have "statistics_of 1 db_liked
     = \<lparr>advertisements_count = 1, total_likes = 1, total_dislikes = 0\<rparr>"
    by (simp add: db_liked_eq statistics_of_def advertisements_of_def)
  moreover have "statistics_consistent db_liked = False"
    by (simp add: db_liked_eq statistics_consistent_def statistics_of_def advertisements_of_def)
  moreover have "statistics_consistent db_one_ad = True"
    by (simp add: db_one_ad_eq statistics_consistent_def statistics_of_def advertisements_of_def)
  ultimately show ?thesis using reachable_db_liked by simp
qed

text \<open>
  Claim C2. The receivers of \<open>post_save\<close> run on every save of an advertisement and
  look at the value of the counter, not at its change: whenever a row of a reachable database
  is saved, \<open>total_likes\<close> of the author grows by one if the saved instance has a positive
  \<open>likes\<close> counter, and \<open>total_dislikes\<close> by one if it has a positive
  \<open>dislikes\<close> counter. In particular an edit by the author, which changes neither
  counter of the advertisement, adds one to each total whose counter is positive.
\<close>

theorem C2_every_save_counts_again:
  assumes "reachable s" and "map_of (advertisements s) pk = Some a"
    and "author a' = author a"
  shows "\<exists>p. map_of (profiles s) (author a) = Some p \<and>
           (\<exists>s' p'. Advertisement_save (Some pk) a' s = (pk, None, s') \<and>
                    map_of (profiles s') (author a) = Some p' \<and>
                    total_likes p' = total_likes p + (if 0 < likes a' then 1 else 0) \<and>
                    total_dislikes p' = total_dislikes p + (if 0 < dislikes a' then 1 else 0)) \<and>
           (user request = Some (author a) \<and> method request = ''POST'' \<and>
            ad_form request = Some form \<longrightarrow>
            (\<exists>s' row p'. edit_advertisement request pk s
                      = (Inr (Redirect ''board:advertisement_detail'' (Some pk)), s') \<and>
                    map_of (advertisements s') pk = Some row \<and>
                    likes row = likes a \<and> dislikes row = dislikes a \<and>
                    map_of (profiles s') (author a) = Some p' \<and>
                    total_likes p' = total_likes p + (if 0 < likes a then 1 else 0) \<and>
                    total_dislikes p' = total_dislikes p + (if 0 < dislikes a then 1 else 0)))"
proof -
  obtain p where p: "map_of (profiles s) (author a) = Some p"
    using reachable_author_profile[OF assms(1,2)] by blast
  have p1: "map_of (profiles s) (author a') = Some p" using p assms(3) by simp
  from save_update_exact[OF p1, of pk]
  obtain s1 where e1: "Advertisement_save (Some pk) a' s = (pk, None, s1)"
    and pr1: "map_of (profiles s1) = (map_of (profiles s))(author a' \<mapsto> counted a' p)"
    by blast
  have m1: "map_of (profiles s1) (author a) = Some (counted a' p)"
    using pr1 assms(3) by simp
  have save: "\<exists>s' p'. Advertisement_save (Some pk) a' s = (pk, None, s') \<and>
                    map_of (profiles s') (author a) = Some p' \<and>
                    total_likes p' = total_likes p + (if 0 < likes a' then 1 else 0) \<and>
                    total_dislikes p' = total_dislikes p + (if 0 < dislikes a' then 1 else 0)"
    using e1 m1 by (auto simp: counted_def)
  let ?row = "a\<lparr>title := form_title form, content := form_content form,
                  image := form_image form\<rparr>"
  have p2: "map_of (profiles s) (author ?row) = Some p" using p by simp
  from save_update_exact[OF p2, of pk]
  obtain s2 where e2: "Advertisement_save (Some pk) ?row s = (pk, None, s2)"
    and ads2: "advertisements s2 = AList.update pk ?row (advertisements s)"
    and pr2: "map_of (profiles s2) = (map_of (profiles s))(author ?row \<mapsto> counted ?row p)"
    by blast
  have v: "edit_advertisement request pk s
             = (Inr (Redirect ''board:advertisement_detail'' (Some pk)), s2)"
    if "user request = Some (author a) \<and> method request = ''POST'' \<and>
        ad_form request = Some form"
    using assms(2) that e2
    by (simp add: edit_advertisement_def login_required_def edit_advertisement_view_def
        get_object_or_404_def Let_def)
  have r: "map_of (advertisements s2) pk = Some ?row" by (simp add: ads2 update_conv')
  have m2: "map_of (profiles s2) (author a) = Some (counted ?row p)" using pr2 by simp
  have edit: "user request = Some (author a) \<and> method request = ''POST'' \<and>
            ad_form request = Some form \<longrightarrow>
         (\<exists>s' row p'. edit_advertisement request pk s
                      = (Inr (Redirect ''board:advertisement_detail'' (Some pk)), s') \<and>
                    map_of (advertisements s') pk = Some row \<and>
                    likes row = likes a \<and> dislikes row = dislikes a \<and>
                    map_of (profiles s') (author a) = Some p' \<and>
                    total_likes p' = total_likes p + (if 0 < likes a then 1 else 0) \<and>
                    total_dislikes p' = total_dislikes p + (if 0 < dislikes a then 1 else 0))"
  proof (intro impI exI conjI)
    assume "user request = Some (author a) \<and> method request = ''POST'' \<and>
            ad_form request = Some form"
    then show "edit_advertisement request pk s
            = (Inr (Redirect ''board:advertisement_detail'' (Some pk)), s2)" by (rule v)
    show "map_of (advertisements s2) pk = Some ?row" by (rule r)
    show "likes ?row = likes a" by simp
    show "dislikes ?row = dislikes a" by simp
    show "map_of (profiles s2) (author a) = Some (counted ?row p)" by (rule m2)
    show "total_likes (counted ?row p) = total_likes p + (if 0 < likes a then 1 else 0)"
      by (simp add: counted_def)
    show "total_dislikes (counted ?row p) = total_dislikes p + (if 0 < dislikes a then 1 else 0)"
      by (simp add: counted_def)
  qed
  show ?thesis using p save edit by blast
qed

text \<open>An instance of the theorem on a concrete database.\<close>

theorem C2_every_save_counts_again_witness:
  "reachable db_liked \<and>
   map_of (advertisements db_liked) 1 \<noteq> None \<and>
   user (sample_request ''POST'' (Some 1)) = Some 1 \<and>
   method (sample_request ''POST'' (Some 1)) = ''POST'' \<and>
   ad_form (sample_request ''POST'' (Some 1)) = Some sample_form \<and>
   map_of (profiles db_liked) 1
     = Some \<lparr>advertisements_count = 1, total_likes = 2, total_dislikes = 0\<rparr> \<and>
   (\<exists>s' row p'. edit_advertisement (sample_request ''POST'' (Some 1)) 1 db_liked
              = (Inr (Redirect ''board:advertisement_detail'' (Some 1)), s') \<and>
            map_of (advertisements s') 1 = Some row \<and> likes row = 1 \<and>
            map_of (profiles s') 1 = Some p' \<and> total_likes p' = 3 \<and> total_dislikes p' = 0)"
proof -
  let ?a = "\<lparr>title = ''Bicycle'', content = ''As new'', author = 1,
         created_at = 0, image = None, likes = 1, dislikes = 0\<rparr>"
  have h1: "map_of (advertisements db_liked) 1 = Some ?a" by (simp add: db_liked_eq)
  have h2: "author ?a = author ?a" by simp
  have h3: "user (sample_request ''POST'' (Some 1)) = Some (author ?a)"
    and h4: "method (sample_request ''POST'' (Some 1)) = ''POST''"
    and h5: "ad_form (sample_request ''POST'' (Some 1)) = Some sample_form"
    by (simp_all add: sample_request_def)
  have h6: "map_of (profiles db_liked) 1
     = Some \<lparr>advertisements_count = 1, total_likes = 2, total_dislikes = 0\<rparr>"
    by (simp add: db_liked_eq)
  from C2_every_save_counts_again[OF reachable_db_liked h1 h2,
      of "sample_request ''POST'' (Some 1)" sample_form] h3 h4 h5 h6
  have "\<exists>s' row p'. edit_advertisement (sample_request ''POST'' (Some 1)) 1 db_liked
              = (Inr (Redirect ''board:advertisement_detail'' (Some 1)), s') \<and>
            map_of (advertisements s') 1 = Some row \<and> likes row = 1 \<and>
            map_of (profiles s') 1 = Some p' \<and> total_likes p' = 3 \<and> total_dislikes p' = 0"
    by auto
  then show ?thesis using reachable_db_liked h1 h3 h4 h5 h6 by simp
qed

text \<open>
  Claim C3 as stated fails: for a primary key that matches no advertisement the detail view
  raises \<open>DoesNotExist\<close>, which is not the not-found response, and an anonymous like
  request is redirected to the login page before any lookup.
\<close>

theorem C3_missing_pk_counterexample:
  "map_of (advertisements empty_db) 7 = None \<and>
   fst (advertisement_detail (sample_request ''GET'' None) 7 empty_db) = Inl DoesNotExist \<and>
   fst (advertisement_detail (sample_request ''GET'' None) 7 empty_db) \<noteq> Inl Http404 \<and>
   fst (like_advertisement (sample_request ''GET'' None) 7 empty_db)
     = Inr (Redirect LOGIN_URL None)"
  by (simp add: empty_db_def advertisement_detail_def Advertisement_get_def
      like_advertisement_def login_required_def sample_request_def)

text \<open>
  Claim C3, amended. For a primary key that matches no advertisement, the detail view raises
  \<open>DoesNotExist\<close> (as its docstring says), and an authenticated request to the edit,
  delete, like or dislike view yields the not-found response; the database is left as it was.
\<close>

theorem C3_missing_pk:
  assumes "map_of (advertisements s) pk = None"
  shows "advertisement_detail request pk s = (Inl DoesNotExist, s) \<and>
         (user request \<noteq> None \<longrightarrow>
            edit_advertisement request pk s = (Inl Http404, s) \<and>
            delete_advertisement request pk s = (Inl Http404, s) \<and>
            like_advertisement request pk s = (Inl Http404, s) \<and>
            dislike_advertisement request pk s = (Inl Http404, s))"
proof (rule conjI)
  show "advertisement_detail request pk s = (Inl DoesNotExist, s)"
    using assms by (simp add: advertisement_detail_def Advertisement_get_def)
next
  show "user request \<noteq> None \<longrightarrow>
        edit_advertisement request pk s = (Inl Http404, s) \<and>
        delete_advertisement request pk s = (Inl Http404, s) \<and>
        like_advertisement request pk s = (Inl Http404, s) \<and>
        dislike_advertisement request pk s = (Inl Http404, s)"
  proof
    assume "user request \<noteq> None"
    then obtain u where u: "user request = Some u" by auto
    show "edit_advertisement request pk s = (Inl Http404, s) \<and>
          delete_advertisement request pk s = (Inl Http404, s) \<and>
          like_advertisement request pk s = (Inl Http404, s) \<and>
          dislike_advertisement request pk s = (Inl Http404, s)"
      using assms u
      by (simp add: edit_advertisement_def delete_advertisement_def login_required_def
          like_advertisement_def dislike_advertisement_def edit_advertisement_view_def
          delete_advertisement_view_def get_object_or_404_def like_advertisement_view_def
          dislike_advertisement_view_def)
  qed
qed

text \<open>An instance of the theorem on a concrete database.\<close>

theorem C3_missing_pk_witness:
  "map_of (advertisements db_one_ad) 2 = None \<and>
   user (sample_request ''POST'' (Some 1)) \<noteq> None \<and>
   advertisement_detail (sample_request ''POST'' (Some 1)) 2 db_one_ad
     = (Inl DoesNotExist, db_one_ad) \<and>
   edit_advertisement (sample_request ''POST'' (Some 1)) 2 db_one_ad
     = (Inl Http404, db_one_ad) \<and>
   like_advertisement (sample_request ''POST'' (Some 1)) 2 db_one_ad
     = (Inl Http404, db_one_ad)"
proof -
  have h1: "map_of (advertisements db_one_ad) 2 = None" by (simp add: db_one_ad_eq)
  have h2: "user (sample_request ''POST'' (Some 1)) \<noteq> None"
    by (simp add: sample_request_def)
  show ?thesis using h1 h2 C3_missing_pk[OF h1, of "sample_request ''POST'' (Some 1)"] by simp
qed

text \<open>
  Claim C4. An authenticated request to edit or to delete an advertisement whose author is
  another user is answered by a redirect to the advertisement list, and the database (every
  row of every table, the profile counters included) is left as it was.
\<close>

theorem C4_non_author_redirected_unchanged:
  assumes "map_of (advertisements s) pk = Some a" and "user request = Some u"
    and "author a \<noteq> u"
  shows "edit_advertisement request pk s
           = (Inr (Redirect ''board:advertisement_list'' None), s) \<and>
         delete_advertisement request pk s
           = (Inr (Redirect ''board:advertisement_list'' None), s)"
  using assms
  by (simp add: edit_advertisement_def delete_advertisement_def login_required_def
      edit_advertisement_view_def delete_advertisement_view_def get_object_or_404_def)

text \<open>An instance of the theorem on a concrete database.\<close>

theorem C4_non_author_redirected_unchanged_witness:
  "map_of (advertisements db_one_ad) 1 \<noteq> None \<and>
   user (sample_request ''POST'' (Some 2)) = Some 2 \<and>
   edit_advertisement (sample_request ''POST'' (Some 2)) 1 db_one_ad
     = (Inr (Redirect ''board:advertisement_list'' None), db_one_ad) \<and>
   delete_advertisement (sample_request ''POST'' (Some 2)) 1 db_one_ad
     = (Inr (Redirect ''board:advertisement_list'' None), db_one_ad)"
proof -
  let ?a = "\<lparr>title = ''Bicycle'', content = ''As new'', author = 1,
         created_at = 0, image = None, likes = 0, dislikes = 0\<rparr>"
  have h1: "map_of (advertisements db_one_ad) 1 = Some ?a" by (simp add: db_one_ad_eq)
  have h2: "user (sample_request ''POST'' (Some 2)) = Some 2" by (simp add: sample_request_def)
  have h3: "author ?a \<noteq> 2" by simp
  show ?thesis
    using h1 h2 C4_non_author_redirected_unchanged[OF h1 h2 h3] by simp
qed

text \<open>
  Claim C5. An authenticated POST to the add view with a valid form creates exactly one new
  advertisement row, under a key no row had, with the requesting user as author, and is
  answered by a redirect to the advertisement list; with an invalid form or another method
  the form page is rendered and the database is left as it was.
\<close>

theorem C5_add_creates_one_row:
  assumes "user request = Some u"
  shows "(method request = ''POST'' \<and> ad_form request = Some form \<longrightarrow>
            (\<exists>s'. add_advertisement request s
                     = (Inr (Redirect ''board:advertisement_list'' None), s') \<and>
                  advertisements s' = advertisements s @
                    [(next_pk (map fst (advertisements s)),
                      \<lparr>title = form_title form, content = form_content form, author = u,
                       created_at = now request, image = form_image form,
                       likes = 0, dislikes = 0\<rparr>)] \<and>
                  next_pk (map fst (advertisements s)) \<notin> fst ` set (advertisements s))) \<and>
         (method request \<noteq> ''POST'' \<or> ad_form request = None \<longrightarrow>
            add_advertisement request s
              = (Inr (Render ''board/add_advertisement.html'' Form_context), s))"
proof (intro conjI impI)
  assume "method request = ''POST'' \<and> ad_form request = Some form"
  then have m: "method request = ''POST''" and f: "ad_form request = Some form" by simp_all
  let ?k = "next_pk (map fst (advertisements s))"
  let ?a = "\<lparr>title = form_title form, content = form_content form, author = u,
             created_at = now request, image = form_image form, likes = 0, dislikes = 0\<rparr>"
  let ?s1 = "s\<lparr>advertisements := advertisements s @ [(?k, ?a)]\<rparr>"
  obtain s' where e: "send (post_save ?a True) ?s1 = (None, s')" and op: "only_profiles ?s1 s'"
    using post_save_insert[of ?a ?s1] by blast
  have "add_advertisement request s = (Inr (Redirect ''board:advertisement_list'' None), s')"
    using assms m f e
    by (simp add: add_advertisement_def login_required_def add_advertisement_view_def
        Advertisement_save_def Let_def)
  moreover have "advertisements s' = advertisements s @ [(?k, ?a)]"
    using op by (simp add: only_profiles_def)
  moreover have "?k \<notin> fst ` set (advertisements s)"
    using next_pk_fresh[of "map fst (advertisements s)"] by simp
  ultimately show "\<exists>s'. add_advertisement request s
                     = (Inr (Redirect ''board:advertisement_list'' None), s') \<and>
                  advertisements s' = advertisements s @ [(?k, ?a)] \<and>
                  ?k \<notin> fst ` set (advertisements s)" by blast
next
  assume "method request \<noteq> ''POST'' \<or> ad_form request = None"
  then show "add_advertisement request s
              = (Inr (Render ''board/add_advertisement.html'' Form_context), s)"
    using assms
    by (auto simp: add_advertisement_def login_required_def add_advertisement_view_def)
qed

text \<open>An instance of the theorem on a concrete database.\<close>

theorem C5_add_creates_one_row_witness:
  "user (sample_request ''POST'' (Some 1)) = Some 1 \<and>
   method (sample_request ''POST'' (Some 1)) = ''POST'' \<and>
   ad_form (sample_request ''POST'' (Some 1)) = Some sample_form \<and>
   (\<exists>s'. add_advertisement (sample_request ''POST'' (Some 1)) db_signed_up
            = (Inr (Redirect ''board:advertisement_list'' None), s') \<and>
         length (advertisements s') = 1) \<and>
   method (sample_request ''GET'' (Some 1)) \<noteq> ''POST'' \<and>
   add_advertisement (sample_request ''GET'' (Some 1)) db_signed_up
     = (Inr (Render ''board/add_advertisement.html'' Form_context), db_signed_up)"
proof -
  have h: "user (sample_request ''POST'' (Some 1)) = Some 1"
    and m: "method (sample_request ''POST'' (Some 1)) = ''POST''"
    and f: "ad_form (sample_request ''POST'' (Some 1)) = Some sample_form"
    by (simp_all add: sample_request_def)
  have h': "user (sample_request ''GET'' (Some 1)) = Some 1"
    and m': "method (sample_request ''GET'' (Some 1)) \<noteq> ''POST''"
    by (simp_all add: sample_request_def)
  have e: "advertisements db_signed_up = []" by (simp add: db_signed_up_eq)
  from C5_add_creates_one_row[OF h, of sample_form db_signed_up] m f
  obtain s' where "add_advertisement (sample_request ''POST'' (Some 1)) db_signed_up
            = (Inr (Redirect ''board:advertisement_list'' None), s')"
    and "length (advertisements s') = 1" by (auto simp: e)
  moreover from C5_add_creates_one_row[OF h', of sample_form db_signed_up] m'
  have "add_advertisement (sample_request ''GET'' (Some 1)) db_signed_up
     = (Inr (Render ''board/add_advertisement.html'' Form_context), db_signed_up)" by simp
  ultimately show ?thesis using h m f m' by blast
qed

text \<open>
  Claim C6. The list view paginates all advertisements at five per page. For every database
  and every page parameter it renders a page object of at most five advertisements; the page
  has the requested number, the first page when the parameter is absent or not an integer and
  the last page when it is out of range; its advertisements are those of the table from
  position \<open>5 * (number - 1)\<close> on, five of them or as many as are left; and the pages
  from the first to the last, one after the other, are the whole table.
\<close>

theorem C6_list_page_at_most_five:
  "\<exists>page_obj.
     advertisement_list request s
       = (Inr (Render ''board/advertisement_list.html'' (Page_context page_obj)), s) \<and>
     length (object_list page_obj) \<le> 5 \<and>
     number page_obj
       = (case page request of
            None \<Rightarrow> 1
          | Some k \<Rightarrow>
              if 1 \<le> k \<and>
                 k \<le> num_pages \<lparr>paginator_object_list = map snd (advertisements s),
                                  per_page = 5\<rparr>
              then k
              else num_pages \<lparr>paginator_object_list = map snd (advertisements s),
                              per_page = 5\<rparr>) \<and>
     object_list page_obj
       = take 5 (drop (5 * nat (number page_obj - 1)) (map snd (advertisements s))) \<and>
     concat (map (\<lambda>i. take 5 (drop (5 * i) (map snd (advertisements s))))
        [0..<nat (num_pages
                   \<lparr>paginator_object_list = map snd (advertisements s), per_page = 5\<rparr>)])
       = map snd (advertisements s)"
proof -
  let ?p = "\<lparr>paginator_object_list = map snd (advertisements s), per_page = 5\<rparr>"
  let ?k = "requested_number ?p (page request)"
  let ?pg = "\<lparr>object_list = take 5 (drop (5 * nat (?k - 1)) (map snd (advertisements s))),
              number = ?k\<rparr>"
  have g: "get_page ?p (page request) = Inr ?pg"
    using get_page_exact[of ?p "page request"] by simp
  have v: "advertisement_list request s
       = (Inr (Render ''board/advertisement_list.html'' (Page_context ?pg)), s)"
    using g by (simp add: advertisement_list_def)
  have c: "concat (map (\<lambda>i. take 5 (drop (5 * i) (map snd (advertisements s))))
        [0..<nat (num_pages ?p)]) = map snd (advertisements s)"
    using pages_cover[of ?p] by simp
  show ?thesis
  proof (intro exI conjI)
    show "advertisement_list request s
       = (Inr (Render ''board/advertisement_list.html'' (Page_context ?pg)), s)" by (rule v)
    show "length (object_list ?pg) \<le> 5" by simp
    show "number ?pg
       = (case page request of
            None \<Rightarrow> 1
          | Some k \<Rightarrow> if 1 \<le> k \<and> k \<le> num_pages ?p then k else num_pages ?p)"
      by (simp add: requested_number_def)
    show "object_list ?pg
       = take 5 (drop (5 * nat (number ?pg - 1)) (map snd (advertisements s)))" by simp
    show "concat (map (\<lambda>i. take 5 (drop (5 * i) (map snd (advertisements s))))
        [0..<nat (num_pages ?p)]) = map snd (advertisements s)" by (rule c)
  qed
qed

text \<open>An instance of the theorem on a table of six advertisements: pages two and one.\<close>

theorem C6_list_page_at_most_five_witness:
  "(\<exists>page_obj.
      advertisement_list ((sample_request ''GET'' None)\<lparr>page := Some 2\<rparr>) db_six_ads
        = (Inr (Render ''board/advertisement_list.html'' (Page_context page_obj)), db_six_ads) \<and>
      number page_obj = 2 \<and> object_list page_obj = [sample_advertisement 6]) \<and>
   (\<exists>page_obj.
      advertisement_list (sample_request ''GET'' None) db_six_ads
        = (Inr (Render ''board/advertisement_list.html'' (Page_context page_obj)), db_six_ads) \<and>
      number page_obj = 1 \<and>
      object_list page_obj
        = [sample_advertisement 1, sample_advertisement 2, sample_advertisement 3,
           sample_advertisement 4, sample_advertisement 5])"
proof -
  have n: "num_pages \<lparr>paginator_object_list = xs, per_page = 5\<rparr> = 2"
    if "length xs = 6" for xs :: "advertisement list"
    using that by (simp add: num_pages_def count_def)
  have a: "map snd (advertisements db_six_ads)
             = [sample_advertisement 1, sample_advertisement 2, sample_advertisement 3,
                sample_advertisement 4, sample_advertisement 5, sample_advertisement 6]"
    by (simp add: db_six_ads_def)
  have p2: "page ((sample_request ''GET'' None)\<lparr>page := Some 2\<rparr>) = Some 2" by simp
  have p1: "page (sample_request ''GET'' None) = None" by (simp add: sample_request_def)
  from C6_list_page_at_most_five[of "(sample_request ''GET'' None)\<lparr>page := Some 2\<rparr>" db_six_ads]
  have two: "\<exists>page_obj.
      advertisement_list ((sample_request ''GET'' None)\<lparr>page := Some 2\<rparr>) db_six_ads
        = (Inr (Render ''board/advertisement_list.html'' (Page_context page_obj)), db_six_ads) \<and>
      number page_obj = 2 \<and> object_list page_obj = [sample_advertisement 6]"
    by (auto simp: a n p2)
  from C6_list_page_at_most_five[of "sample_request ''GET'' None" db_six_ads]
  have one: "\<exists>page_obj.
      advertisement_list (sample_request ''GET'' None) db_six_ads
        = (Inr (Render ''board/advertisement_list.html'' (Page_context page_obj)), db_six_ads) \<and>
      number page_obj = 1 \<and>
      object_list page_obj
        = [sample_advertisement 1, sample_advertisement 2, sample_advertisement 3,
           sample_advertisement 4, sample_advertisement 5]"
    by (auto simp: a n p1)
  show ?thesis using two one by blast
qed

text \<open>
  Claim C7. An anonymous request to a protected action (add, edit, delete, like, dislike)
  is answered by a redirect to the login page, and the database is left as it was.
\<close>

theorem C7_anonymous_redirected_to_login:
  assumes "user request = None"
  shows "add_advertisement request s = (Inr (Redirect LOGIN_URL None), s) \<and>
         edit_advertisement request pk s = (Inr (Redirect LOGIN_URL None), s) \<and>
         delete_advertisement request pk s = (Inr (Redirect LOGIN_URL None), s) \<and>
         like_advertisement request pk s = (Inr (Redirect LOGIN_URL None), s) \<and>
         dislike_advertisement request pk s = (Inr (Redirect LOGIN_URL None), s)"
  using assms
  by (simp add: add_advertisement_def edit_advertisement_def delete_advertisement_def
      like_advertisement_def dislike_advertisement_def login_required_def)

text \<open>An instance of the theorem on a concrete database.\<close>

theorem C7_anonymous_redirected_to_login_witness:
  "user (sample_request ''POST'' None) = None \<and>
   add_advertisement (sample_request ''POST'' None) db_one_ad
     = (Inr (Redirect LOGIN_URL None), db_one_ad) \<and>
   delete_advertisement (sample_request ''POST'' None) 1 db_one_ad
     = (Inr (Redirect LOGIN_URL None), db_one_ad) \<and>
   like_advertisement (sample_request ''POST'' None) 1 db_one_ad
     = (Inr (Redirect LOGIN_URL None), db_one_ad)"
proof -
  have h: "user (sample_request ''POST'' None) = None" by (simp add: sample_request_def)
  show ?thesis
    using h C7_anonymous_redirected_to_login[OF h, of db_one_ad 1] by simp
qed

text \<open>
  Claim C8 says that every comment of a reachable database points to an existing
  advertisement and to an existing user, and that deleting a user deletes the advertisements
  of the user and the comments on them, as the docstring of \<open>Advertisement\<close> also says.
  The first half holds in every reachable database. The code breaks the second half: for a
  user who owns an advertisement the cascade has removed the profile row when
  \<open>post_delete\<close> reaches \<open>update_user_statistics_on_delete\<close>, whose unguarded
  \<open>get\<close> raises \<open>DoesNotExist\<close>; the deletion is undone and the user, the
  advertisement and the comment on it are all still there.
\<close>

theorem C8_user_with_advertisement_cannot_be_deleted:
  "reachable db_commented \<and>
   references_live db_commented \<and>
   users db_commented = [1] \<and>
   map (author \<circ> snd) (advertisements db_commented) = [1] \<and>
   map (comment_advertisement \<circ> snd) (comments db_commented) = [1] \<and>
   User_delete 1 db_commented = (Some DoesNotExist, db_commented)"
proof -
  have own: "advertisements_of 1 db_commented \<noteq> []"
    by (simp add: advertisements_of_def db_commented_eq)
  have "db_invariant db_commented" using reachable_db_commented by (rule reachable_inv)
  then have live: "references_live db_commented" by (simp add: db_invariant_def)
  have tables: "users db_commented = [1] \<and>
      map (author \<circ> snd) (advertisements db_commented) = [1] \<and>
      map (comment_advertisement \<circ> snd) (comments db_commented) = [1]"
    by (simp add: db_commented_eq)
  have "User_delete 1 db_commented = (Some DoesNotExist, db_commented)"
    using own by (rule User_delete_owner_raises)
  then show ?thesis using reachable_db_commented live tables by simp
qed

text \<open>
  Claim C9. An authenticated like request on an advertisement of a reachable database adds
  one to the \<open>likes\<close> counter of the advertisement and two to \<open>total_likes\<close> of
  its author: one in the receiver of \<open>post_save\<close>, whose guard holds after the
  increment, and one in the view. The same holds for dislikes.
\<close>

theorem C9_like_counts_twice:
  assumes "reachable s" and "map_of (advertisements s) pk = Some a"
    and "user request = Some u"
  shows "\<exists>p. map_of (profiles s) (author a) = Some p \<and>
           (\<exists>s' p'. like_advertisement request pk s
                      = (Inr (Redirect ''board:advertisement_detail'' (Some pk)), s') \<and>
                    map_of (advertisements s') pk = Some (a\<lparr>likes := likes a + 1\<rparr>) \<and>
                    map_of (profiles s') (author a) = Some p' \<and>
                    total_likes p' = total_likes p + 2) \<and>
           (\<exists>s' p'. dislike_advertisement request pk s
                      = (Inr (Redirect ''board:advertisement_detail'' (Some pk)), s') \<and>
                    map_of (advertisements s') pk = Some (a\<lparr>dislikes := dislikes a + 1\<rparr>) \<and>
                    map_of (profiles s') (author a) = Some p' \<and>
                    total_dislikes p' = total_dislikes p + 2)"
proof -
  obtain p where p: "map_of (profiles s) (author a) = Some p"
    using reachable_author_profile[OF assms(1,2)] by blast
  have n: "0 \<le> likes a \<and> 0 \<le> dislikes a" using assms(1,2) by (rule reachable_row_nonneg)
  let ?al = "a\<lparr>likes := likes a + 1\<rparr>"
  let ?pl = "(counted ?al p)\<lparr>total_likes := total_likes (counted ?al p) + 1\<rparr>"
  let ?ad = "a\<lparr>dislikes := dislikes a + 1\<rparr>"
  let ?pd = "(counted ?ad p)\<lparr>total_dislikes := total_dislikes (counted ?ad p) + 1\<rparr>"
  have tl: "total_likes ?pl = total_likes p + 2" using n by (simp add: counted_def)
  have td: "total_dislikes ?pd = total_dislikes p + 2" using n by (simp add: counted_def)
  have l: "\<exists>s' p'. like_advertisement request pk s
                      = (Inr (Redirect ''board:advertisement_detail'' (Some pk)), s') \<and>
                    map_of (advertisements s') pk = Some ?al \<and>
                    map_of (profiles s') (author a) = Some p' \<and>
                    total_likes p' = total_likes p + 2"
    using like_exact[OF assms(2,3) p] tl by blast
  have d: "\<exists>s' p'. dislike_advertisement request pk s
                      = (Inr (Redirect ''board:advertisement_detail'' (Some pk)), s') \<and>
                    map_of (advertisements s') pk = Some ?ad \<and>
                    map_of (profiles s') (author a) = Some p' \<and>
                    total_dislikes p' = total_dislikes p + 2"
    using dislike_exact[OF assms(2,3) p] td by blast
  show ?thesis using p l d by blast
qed

text \<open>An instance of the theorem on a concrete database.\<close>

theorem C9_like_counts_twice_witness:
  "reachable db_one_ad \<and>
   map_of (advertisements db_one_ad) 1 \<noteq> None \<and>
   user (sample_request ''GET'' (Some 1)) = Some 1 \<and>
   map_of (profiles db_one_ad) 1
     = Some \<lparr>advertisements_count = 1, total_likes = 0, total_dislikes = 0\<rparr> \<and>
   (\<exists>s' p'. like_advertisement (sample_request ''GET'' (Some 1)) 1 db_one_ad
              = (Inr (Redirect ''board:advertisement_detail'' (Some 1)), s') \<and>
            map_of (profiles s') 1 = Some p' \<and> total_likes p' = 2)"
proof -
  let ?a = "\<lparr>title = ''Bicycle'', content = ''As new'', author = 1,
         created_at = 0, image = None, likes = 0, dislikes = 0\<rparr>"
  have h1: "map_of (advertisements db_one_ad) 1 = Some ?a" by (simp add: db_one_ad_eq)
  have h2: "user (sample_request ''GET'' (Some 1)) = Some 1" by (simp add: sample_request_def)
  have h3: "map_of (profiles db_one_ad) 1
     = Some \<lparr>advertisements_count = 1, total_likes = 0, total_dislikes = 0\<rparr>"
    by (simp add: db_one_ad_eq)
  from C9_like_counts_twice[OF reachable_db_one_ad h1 h2] h3
  have "\<exists>s' p'. like_advertisement (sample_request ''GET'' (Some 1)) 1 db_one_ad
              = (Inr (Redirect ''board:advertisement_detail'' (Some 1)), s') \<and>
            map_of (profiles s') 1 = Some p' \<and> total_likes p' = 2"
    by auto
  then show ?thesis using reachable_db_one_ad h1 h2 h3 by simp
qed

text \<open>
  Claim C10. The create handler never raises, and saving a new advertisement never fails,
  whether the author has a profile or not; the delete handler raises \<open>DoesNotExist\<close>
  when the author has no profile row, and so does the delete view for such an advertisement.
\<close>

theorem C10_create_never_fails_delete_raises:
  "(\<exists>s'. update_user_statistics_on_create a True s = Inr s') \<and>
   fst (snd (Advertisement_save None a s)) = None \<and>
   (map_of (profiles s) (author a) = None \<longrightarrow>
      update_user_statistics_on_delete a s = Inl DoesNotExist \<and>
      (map_of (advertisements s) pk = Some a \<and>
       user request = Some (author a) \<and> method request = ''POST'' \<longrightarrow>
         delete_advertisement request pk s = (Inl DoesNotExist, s)))"
proof (intro conjI impI)
  show "\<exists>s'. update_user_statistics_on_create a True s = Inr s'"
    using on_create_True[of a s] by blast
  let ?s1 = "s\<lparr>advertisements := advertisements s @
               [(next_pk (map fst (advertisements s)), a)]\<rparr>"
  obtain s' where "send (post_save a True) ?s1 = (None, s')"
    using post_save_insert[of a ?s1] by blast
  then show "fst (snd (Advertisement_save None a s)) = None"
    by (simp add: Advertisement_save_def Let_def)
next
  assume "map_of (profiles s) (author a) = None"
  then show "update_user_statistics_on_delete a s = Inl DoesNotExist"
    by (simp add: update_user_statistics_on_delete_def UserProfile_get_def)
next
  assume n: "map_of (profiles s) (author a) = None"
    and "map_of (advertisements s) pk = Some a \<and>
       user request = Some (author a) \<and> method request = ''POST''"
  then show "delete_advertisement request pk s = (Inl DoesNotExist, s)"
    by (simp add: delete_advertisement_def login_required_def delete_advertisement_view_def
        get_object_or_404_def Advertisement_delete_def post_delete_def
        update_user_statistics_on_delete_def UserProfile_get_def)
qed

text \<open>An instance of the theorem on a concrete database.\<close>

theorem C10_create_never_fails_delete_raises_witness:
  "map_of (profiles db_profile_lost) 1 = None \<and>
   map_of (advertisements db_profile_lost) 1 \<noteq> None \<and>
   delete_advertisement (sample_request ''POST'' (Some 1)) 1 db_profile_lost
     = (Inl DoesNotExist, db_profile_lost) \<and>
   fst (add_advertisement (sample_request ''POST'' (Some 1)) db_profile_lost)
     = Inr (Redirect ''board:advertisement_list'' None)"
proof -
  let ?a = "\<lparr>title = ''Bicycle'', content = ''As new'', author = 1,
         created_at = 0, image = None, likes = 0, dislikes = 0\<rparr>"
  have p: "map_of (profiles db_profile_lost) (author ?a) = None"
    by (simp add: db_profile_lost_def)
  have r: "map_of (advertisements db_profile_lost) 1 = Some ?a \<and>
       user (sample_request ''POST'' (Some 1)) = Some (author ?a) \<and>
       method (sample_request ''POST'' (Some 1)) = ''POST''"
    by (simp add: db_profile_lost_def db_one_ad_eq sample_request_def)
  have "delete_advertisement (sample_request ''POST'' (Some 1)) 1 db_profile_lost
     = (Inl DoesNotExist, db_profile_lost)"
    using C10_create_never_fails_delete_raises[of ?a db_profile_lost 1
        "sample_request ''POST'' (Some 1)"] p r by blast
  moreover have "fst (add_advertisement (sample_request ''POST'' (Some 1)) db_profile_lost)
     = Inr (Redirect ''board:advertisement_list'' None)"
    by (simp add: db_profile_lost_def db_one_ad_eq add_advertisement_def login_required_def
      add_advertisement_view_def sample_request_def sample_form_def Advertisement_save_def
      next_pk_def post_save_def update_user_statistics_on_create_def
      update_user_statistics_on_like_def update_user_statistics_on_dislike_def
      UserProfile_get_or_create_def UserProfile_save_def new_profile_def Let_def)
  ultimately show ?thesis using p r by simp
qed

end
